theory Spec2Isabelle
  imports Main "HOL-Library.Sublist"
begin

section \<open>JavaScript string primitives\<close>

text \<open>
  The services work on JavaScript strings. A string is modelled as a list of code units;
  the model covers the code units below 256 (Latin-1), which is what \<open>char\<close> holds.
  \<open>toLowerCase\<close> maps \<open>A\<close>..\<open>Z\<close> and the upper-case letters of the Latin-1 block
  (0xC0..0xDE without the multiplication sign 0xD7) to the code unit 32 above;
  \<open>trim\<close> and the regular-expression class \<open>\s\<close> use the white space and line
  terminators of ECMAScript that lie in this range.
\<close>

definition isWhiteSpace :: "char \<Rightarrow> bool" where
  "isWhiteSpace c = (of_char c \<in> {9, 10, 11, 12, 13, 32, 160 :: nat})"

definition isDigit :: "char \<Rightarrow> bool" where
  "isDigit c = (48 \<le> (of_char c :: nat) \<and> (of_char c :: nat) \<le> 57)"

definition toLowerChar :: "char \<Rightarrow> char" where
  "toLowerChar c =
     (let n = (of_char c :: nat)
      in if (65 \<le> n \<and> n \<le> 90) \<or> (192 \<le> n \<and> n \<le> 222 \<and> n \<noteq> 215)
         then char_of (n + 32) else c)"

definition toLowerCase :: "string \<Rightarrow> string" where
  "toLowerCase s = map toLowerChar s"

text \<open>\<open>js_startsWith s p\<close> is \<open>s.startsWith(p)\<close>; \<open>js_includes s p\<close> is \<open>s.includes(p)\<close>.\<close>

fun js_startsWith :: "string \<Rightarrow> string \<Rightarrow> bool" where
  "js_startsWith s [] = True"
| "js_startsWith [] (p # ps) = False"
| "js_startsWith (c # cs) (p # ps) = (c = p \<and> js_startsWith cs ps)"

fun js_includes :: "string \<Rightarrow> string \<Rightarrow> bool" where
  "js_includes [] p = (p = [])"
| "js_includes (c # cs) p = (js_startsWith (c # cs) p \<or> js_includes cs p)"

definition js_endsWith :: "string \<Rightarrow> string \<Rightarrow> bool" where
  "js_endsWith s p = js_startsWith (rev s) (rev p)"

definition js_trim :: "string \<Rightarrow> string" where
  "js_trim s = rev (dropWhile isWhiteSpace (rev (dropWhile isWhiteSpace s)))"

text \<open>\<open>s.split('\n')\<close> and \<open>lines.join('\n')\<close>.\<close>

fun js_split_lines :: "string \<Rightarrow> string list" where
  "js_split_lines [] = [[]]"
| "js_split_lines (c # cs) =
     (if c = CHR 0x0A then [] # js_split_lines cs
      else (case js_split_lines cs of
              [] \<Rightarrow> [[c]]
            | l # ls \<Rightarrow> (c # l) # ls))"

fun js_join :: "string \<Rightarrow> string list \<Rightarrow> string" where
  "js_join sep [] = []"
| "js_join sep [x] = x"
| "js_join sep (x # y # ys) = x @ sep @ js_join sep (y # ys)"

text \<open>
  \<open>s.replace(/p/g, '')\<close> for a pattern \<open>p\<close> that is a literal, non-empty string:
  every match, found from left to right without overlap, is deleted.
\<close>

fun js_removeAll :: "string \<Rightarrow> string \<Rightarrow> string" where
  "js_removeAll p [] = []"
| "js_removeAll p (c # cs) =
     (if p \<noteq> [] \<and> js_startsWith (c # cs) p
      then js_removeAll p (drop (length p) (c # cs))
      else c # js_removeAll p cs)"

section \<open>Errors, validation results and the database\<close>

text \<open>
  Every \<open>throw\<close> and every rejected promise of the services is a value of \<open>failure\<close>;
  \<open>message\<close> is the text of the JavaScript \<open>Error\<close>.
\<close>

datatype failure =
    DatabaseUnavailable string
  | QueryFailed string
  | TypeError string
  | NotUnderstood string
  | GenerationUnavailable string
  | ContextUnavailable string
  | NoQueryProduced string
  | MalformedResponse
  | ValidationFailed string

fun message :: "failure \<Rightarrow> string" where
  "message (DatabaseUnavailable m) = m"
| "message (QueryFailed m) = m"
| "message (TypeError m) = m"
| "message (NotUnderstood m) = m"
| "message (GenerationUnavailable m) = m"
| "message (ContextUnavailable m) = m"
| "message (NoQueryProduced explanation) = ''LLM explanation: '' @ explanation"
| "message MalformedResponse = ''Invalid response format from LLM or empty query.''"
| "message (ValidationFailed e) = ''Generated SQL is invalid: '' @ e"

record ValidationResult =
  isValid :: bool
  error :: "string option"

text \<open>One row of the catalog query of \<open>getTableSchema\<close>.\<close>

record row =
  table_name :: string
  column_name :: string
  data_type :: string
  is_nullable :: string

text \<open>
  The database as one request sees it. Every function that needs a client calls
  \<open>dbPool.connect()\<close> itself, so the pool is asked more than once in a request:
  \<open>connect n\<close> is its answer when the request has asked \<open>n\<close> times before
  (\<open>None\<close>: a client is handed out; \<open>Some m\<close>: the promise rejects with message
  \<open>m\<close>). \<open>catalog\<close> is the answer to the catalog query
  (\<open>Inl m\<close>: the query rejects), and \<open>query stmt\<close> is the answer to any other
  statement (\<open>None\<close>: it succeeds; \<open>Some m\<close>: the database reports error \<open>m\<close>).
\<close>

record database =
  connect :: "nat \<Rightarrow> string option"
  catalog :: "string + row list"
  query :: "string \<Rightarrow> string option"

section \<open>SQL validator\<close>

definition forbiddenKeywords :: "string list" where
  "forbiddenKeywords =
     [''insert'', ''update'', ''delete'', ''drop'', ''create'', ''alter'',
      ''truncate'', ''grant'', ''revoke'']"

text \<open>The keyword screen of the pattern-matching service (\<open>sqlGeneratorSimple\<close>).\<close>

definition foundForbiddenKeyword_simple :: "string \<Rightarrow> string option" where
  "foundForbiddenKeyword_simple sqlQuery =
     (let normalizedSql = toLowerCase sqlQuery
      in find (\<lambda>keyword.
            js_includes normalizedSql ('' '' @ keyword @ '' '')
            \<or> js_startsWith normalizedSql (keyword @ '' ''))
          forbiddenKeywords)"

text \<open>The keyword screen of the Gemini service (\<open>sqlGeneratorAI\<close>).\<close>

definition foundForbiddenKeyword_AI :: "string \<Rightarrow> string option" where
  "foundForbiddenKeyword_AI sqlQuery =
     (let normalizedSql = toLowerCase sqlQuery
      in find (\<lambda>keyword.
            js_includes normalizedSql ('' '' @ keyword @ '' '')
            \<or> js_startsWith normalizedSql (keyword @ '' ''))
          forbiddenKeywords)"

text \<open>The keyword screen of the Vertex service (\<open>sqlGenerator\<close>).\<close>

definition foundForbiddenKeyword_vertex :: "string \<Rightarrow> string option" where
  "foundForbiddenKeyword_vertex sqlQuery =
     (let normalizedSql = toLowerCase sqlQuery
      in find (\<lambda>keyword. js_includes normalizedSql ('' '' @ keyword @ '' ''))
          forbiddenKeywords)"

text \<open>
  The second stage, the same in the three services: acquire a client (a rejection is
  not caught and leaves the validator as an exception), send \<open>EXPLAIN\<close> followed by
  the statement, and turn a database error into \<open>isValid: false\<close>. The validators
  take, besides the statement, the number \<open>n\<close> of clients the request has asked the
  pool for before the validator runs.
\<close>

definition explainCheck :: "database \<Rightarrow> nat \<Rightarrow> string \<Rightarrow> failure + ValidationResult" where
  "explainCheck db n sqlQuery =
     (case connect db n of
        Some m \<Rightarrow> Inl (DatabaseUnavailable m)
      | None \<Rightarrow>
          (case query db (''EXPLAIN '' @ sqlQuery) of
             None \<Rightarrow> Inr \<lparr>isValid = True, error = None\<rparr>
           | Some m \<Rightarrow> Inr \<lparr>isValid = False, error = Some m\<rparr>))"

definition forbiddenResult :: ValidationResult where
  "forbiddenResult =
     \<lparr>isValid = False,
      error = Some ''Query contains a forbidden write-operation keyword.''\<rparr>"

definition validateSqlSyntax_simple ::
  "database \<Rightarrow> nat \<Rightarrow> string \<Rightarrow> failure + ValidationResult" where
  "validateSqlSyntax_simple db n sqlQuery =
     (case foundForbiddenKeyword_simple sqlQuery of
        Some keyword \<Rightarrow> Inr forbiddenResult
      | None \<Rightarrow> explainCheck db n sqlQuery)"

definition validateSqlSyntax_AI ::
  "database \<Rightarrow> nat \<Rightarrow> string \<Rightarrow> failure + ValidationResult" where
  "validateSqlSyntax_AI db n sqlQuery =
     (case foundForbiddenKeyword_AI sqlQuery of
        Some keyword \<Rightarrow> Inr forbiddenResult
      | None \<Rightarrow> explainCheck db n sqlQuery)"

definition validateSqlSyntax_vertex ::
  "database \<Rightarrow> nat \<Rightarrow> string \<Rightarrow> failure + ValidationResult" where
  "validateSqlSyntax_vertex db n sqlQuery =
     (case foundForbiddenKeyword_vertex sqlQuery of
        Some keyword \<Rightarrow> Inr forbiddenResult
      | None \<Rightarrow> explainCheck db n sqlQuery)"

section \<open>Schema inspector\<close>

record Column =
  name :: string
  type :: string
  nullable :: bool

record TableSchema =
  name :: string
  columns :: "Column list"

text \<open>
  \<open>getTableSchema\<close> groups the rows in a plain object \<open>tables = {}\<close> keyed by table
  name. The own properties of the object are an association list in creation order.
  A read \<open>tables[k]\<close> of a key that is not an own property goes to
  \<open>Object.prototype\<close>: for the property names below it finds an inherited function
  (or, for \<open>__proto__\<close>, the prototype object), which is truthy and has no
  \<open>columns\<close>; for any other key it is \<open>undefined\<close>.
\<close>

definition objectPrototypeKeys :: "string list" where
  "objectPrototypeKeys =
     [''constructor'', ''__defineGetter__'', ''__defineSetter__'', ''hasOwnProperty'',
      ''__lookupGetter__'', ''__lookupSetter__'', ''isPrototypeOf'',
      ''propertyIsEnumerable'', ''toString'', ''valueOf'', ''__proto__'',
      ''toLocaleString'']"

datatype 'a property = Undefined | Inherited | Own 'a

definition getProperty :: "(string \<times> 'a) list \<Rightarrow> string \<Rightarrow> 'a property" where
  "getProperty obj k =
     (case map_of obj k of
        Some v \<Rightarrow> Own v
      | None \<Rightarrow> if k \<in> set objectPrototypeKeys then Inherited else Undefined)"

text \<open>\<open>obj[k] = v\<close>: an existing own property keeps its place, a new one goes last.\<close>

fun setProperty :: "string \<Rightarrow> 'a \<Rightarrow> (string \<times> 'a) list \<Rightarrow> (string \<times> 'a) list" where
  "setProperty k v [] = [(k, v)]"
| "setProperty k v (p # ps) = (if fst p = k then (k, v) # ps else p # setProperty k v ps)"

text \<open>
  \<open>Object.values\<close> lists the own properties whose key is an array index (a canonical
  decimal numeral up to \<open>2^32 - 2\<close>) first, in ascending numeric order, and the others
  after them in creation order.
\<close>

definition indexValue :: "string \<Rightarrow> nat" where
  "indexValue k = foldl (\<lambda>n c. 10 * n + (of_char c - 48)) 0 k"

definition isArrayIndex :: "string \<Rightarrow> bool" where
  "isArrayIndex k =
     (k \<noteq> [] \<and> list_all isDigit k \<and> (k = ''0'' \<or> hd k \<noteq> CHR ''0'')
      \<and> indexValue k \<le> 4294967294)"

definition objectValues :: "(string \<times> 'a) list \<Rightarrow> 'a list" where
  "objectValues obj =
     map snd (sort_key (\<lambda>p. indexValue (fst p)) (filter (\<lambda>p. isArrayIndex (fst p)) obj))
     @ map snd (filter (\<lambda>p. \<not> isArrayIndex (fst p)) obj)"

text \<open>The object literal that the \<open>forEach\<close> callback pushes for a row.\<close>

definition columnOf :: "row \<Rightarrow> Column" where
  "columnOf r =
     \<lparr>Column.name = column_name r, type = data_type r,
      nullable = (is_nullable r = ''YES'')\<rparr>"

text \<open>The body of the \<open>forEach\<close> callback, for one row.\<close>

definition addRow ::
  "(string \<times> TableSchema) list \<Rightarrow> row \<Rightarrow> failure + (string \<times> TableSchema) list" where
  "addRow tables r =
     (let k = table_name r;
          tables1 = (case getProperty tables k of
                       Undefined \<Rightarrow> setProperty k \<lparr>name = k, columns = []\<rparr> tables
                     | Inherited \<Rightarrow> tables
                     | Own t \<Rightarrow> tables)
      in case getProperty tables1 k of
           Own t \<Rightarrow> Inr (setProperty k (t\<lparr>columns := columns t @ [columnOf r]\<rparr>) tables1)
         | Inherited \<Rightarrow>
             Inl (TypeError ''Cannot read properties of undefined (reading 'push')'')
         | Undefined \<Rightarrow>
             Inl (TypeError ''Cannot read properties of undefined (reading 'columns')''))"

fun forEachRow ::
  "(string \<times> TableSchema) list \<Rightarrow> row list \<Rightarrow> failure + (string \<times> TableSchema) list" where
  "forEachRow tables [] = Inr tables"
| "forEachRow tables (r # rs) =
     (case addRow tables r of
        Inl e \<Rightarrow> Inl e
      | Inr tables' \<Rightarrow> forEachRow tables' rs)"

text \<open>\<open>getTableSchema\<close> is the first to ask the pool in the two services that call it.\<close>

definition getTableSchema :: "database \<Rightarrow> failure + TableSchema list" where
  "getTableSchema db =
     (case connect db 0 of
        Some m \<Rightarrow> Inl (DatabaseUnavailable m)
      | None \<Rightarrow>
          (case catalog db of
             Inl m \<Rightarrow> Inl (QueryFailed m)
           | Inr rows \<Rightarrow>
               (case forEachRow [] rows of
                  Inl e \<Rightarrow> Inl e
                | Inr tables \<Rightarrow> Inr (objectValues tables))))"

section \<open>Pattern-matching generator\<close>

text \<open>
  \<open>lowerQuestion.match(/(\d+)\s*(day|days)/)\<close>, reduced to what the caller reads:
  the first capture group of the leftmost match.
\<close>

definition matchDaysAt :: "string \<Rightarrow> string option" where
  "matchDaysAt s =
     (let digits = takeWhile isDigit s;
          rest = dropWhile isWhiteSpace (dropWhile isDigit s)
      in if digits \<noteq> [] \<and> js_startsWith rest ''day'' then Some digits else None)"

fun matchDays :: "string \<Rightarrow> string option" where
  "matchDays [] = None"
| "matchDays (c # cs) =
     (case matchDaysAt (c # cs) of
        Some digits \<Rightarrow> Some digits
      | None \<Rightarrow> matchDays cs)"

definition indent :: string where
  "indent = [CHR 0x0A] @ ''           ''"

definition generateSimpleQuery :: "string \<Rightarrow> TableSchema list \<Rightarrow> failure + string" where
  "generateSimpleQuery question tables =
     (let lowerQuestion = toLowerCase question
      in if js_includes lowerQuestion ''count'' \<and> js_includes lowerQuestion ''users'' then
           (if js_includes lowerQuestion ''active''
            then Inr (''SELECT COUNT(*) as total FROM users WHERE status = 'active'' @ [CHR 0x27])
            else Inr ''SELECT COUNT(*) as total FROM users'')
         else if js_includes lowerQuestion ''count'' \<and> js_includes lowerQuestion ''products'' then
           Inr ''SELECT COUNT(*) as total FROM products''
         else if js_includes lowerQuestion ''count'' \<and> js_includes lowerQuestion ''orders'' then
           (if js_includes lowerQuestion ''completed''
            then Inr (''SELECT COUNT(*) as total FROM orders WHERE status = 'completed'' @ [CHR 0x27])
            else Inr ''SELECT COUNT(*) as total FROM orders'')
         else if js_includes lowerQuestion ''total revenue''
                 \<or> js_includes lowerQuestion ''total sales'' then
           Inr (''SELECT SUM(total_amount) as total_revenue FROM orders WHERE status = 'completed'' @ [CHR 0x27])
         else if js_includes lowerQuestion ''users'' then
           Inr (''SELECT * FROM users''
                @ (if js_includes lowerQuestion ''active'' then '' WHERE status = 'active'' @ [CHR 0x27]
                   else if js_includes lowerQuestion ''inactive''
                   then '' WHERE status = 'inactive'' @ [CHR 0x27]
                   else [])
                @ '' LIMIT 100'')
         else if js_includes lowerQuestion ''products'' then
           Inr (''SELECT * FROM products''
                @ (if js_includes lowerQuestion ''electronics''
                   then '' WHERE category = 'Electronics'' @ [CHR 0x27]
                   else if js_includes lowerQuestion ''furniture''
                   then '' WHERE category = 'Furniture'' @ [CHR 0x27]
                   else if js_includes lowerQuestion ''stationery''
                   then '' WHERE category = 'Stationery'' @ [CHR 0x27]
                   else [])
                @ '' LIMIT 100'')
         else if js_includes lowerQuestion ''orders'' then
           Inr (''SELECT * FROM orders''
                @ (if js_includes lowerQuestion ''completed''
                   then '' WHERE status = 'completed'' @ [CHR 0x27]
                   else if js_includes lowerQuestion ''pending''
                   then '' WHERE status = 'pending'' @ [CHR 0x27]
                   else if js_includes lowerQuestion ''cancelled''
                   then '' WHERE status = 'cancelled'' @ [CHR 0x27]
                   else [])
                @ '' LIMIT 100'')
         else if js_includes lowerQuestion ''orders by user''
                 \<or> js_includes lowerQuestion ''user orders'' then
           Inr (''SELECT u.name, u.email, COUNT(o.id) as order_count, SUM(o.total_amount) as total_spent''
                @ indent @ ''FROM users u''
                @ indent @ ''LEFT JOIN orders o ON u.id = o.user_id''
                @ indent @ ''GROUP BY u.id, u.name, u.email''
                @ indent @ ''ORDER BY order_count DESC'')
         else if js_includes lowerQuestion ''top products''
                 \<or> js_includes lowerQuestion ''popular products'' then
           Inr (''SELECT p.name, p.category, COUNT(oi.id) as times_ordered, SUM(oi.quantity) as total_quantity''
                @ indent @ ''FROM products p''
                @ indent @ ''JOIN order_items oi ON p.id = oi.product_id''
                @ indent @ ''GROUP BY p.id, p.name, p.category''
                @ indent @ ''ORDER BY times_ordered DESC''
                @ indent @ ''LIMIT 10'')
         else if js_includes lowerQuestion ''recent orders'' then
           (let limit = (case matchDays lowerQuestion of Some digits \<Rightarrow> digits | None \<Rightarrow> ''30'')
            in Inr (''SELECT * FROM orders''
                    @ indent @ ''WHERE created_at >= NOW() - INTERVAL ''
                    @ [CHR 0x27] @ limit @ '' days'' @ [CHR 0x27]
                    @ indent @ ''ORDER BY created_at DESC''
                    @ indent @ ''LIMIT 100''))
         else if js_includes lowerQuestion ''product'' \<and> js_includes lowerQuestion ''category'' then
           Inr (''SELECT category, COUNT(*) as product_count, AVG(price) as avg_price''
                @ indent @ ''FROM products''
                @ indent @ ''GROUP BY category''
                @ indent @ ''ORDER BY product_count DESC'')
         else
           Inl (NotUnderstood
                 (''I couldn't understand your question. Available tables: ''
                  @ js_join '', '' (map TableSchema.name tables) @ ''. ''
                  @ ''Try queries like: \"Show all users\", \"Count products\", \"Total revenue\", \"Top products\", \"Orders by user\", \"Recent orders\"'')))"

text \<open>
  The orchestrator of the pattern-matching service. The schema read has asked the pool
  once when the validator runs.
\<close>

definition generateSqlFromQuestion_simple :: "database \<Rightarrow> string \<Rightarrow> failure + string" where
  "generateSqlFromQuestion_simple db question =
     (case getTableSchema db of
        Inl e \<Rightarrow> Inl e
      | Inr tables \<Rightarrow>
          (case generateSimpleQuery question tables of
             Inl e \<Rightarrow> Inl e
           | Inr sqlQuery \<Rightarrow>
               (case validateSqlSyntax_simple db 1 sqlQuery of
                  Inl e \<Rightarrow> Inl e
                | Inr validationResult \<Rightarrow>
                    if \<not> isValid validationResult
                    then Inl (ValidationFailed (case error validationResult of
                                                  Some m \<Rightarrow> m | None \<Rightarrow> ''undefined''))
                    else Inr sqlQuery)))"

section \<open>Gemini service: prompt, response cleaning, orchestrator\<close>

definition buildPrompt :: "string \<Rightarrow> TableSchema list \<Rightarrow> string" where
  "buildPrompt question tables =
     (let schemaDescription =
            js_join [CHR 0x0A, CHR 0x0A]
              (map (\<lambda>table.
                      ''Table: '' @ TableSchema.name table @ [CHR 0x0A] @ ''Columns: ''
                      @ js_join '', ''
                          (map (\<lambda>col. Column.name col @ '' ('' @ type col
                                       @ (if nullable col then '', nullable'' else []) @ '')'')
                               (columns table)))
                   tables)
      in ''You are a PostgreSQL expert. Generate a SQL query to answer the user's question.''
         @ [CHR 0x0A, CHR 0x0A] @ ''DATABASE SCHEMA:''
         @ [CHR 0x0A] @ schemaDescription
         @ [CHR 0x0A, CHR 0x0A] @ ''RULES:''
         @ [CHR 0x0A] @ ''1. Return ONLY the SQL query, no explanations or markdown''
         @ [CHR 0x0A] @ ''2. Use PostgreSQL syntax''
         @ [CHR 0x0A] @ ''3. Only use SELECT statements (no INSERT, UPDATE, DELETE, DROP, etc.)''
         @ [CHR 0x0A] @ ''4. Add LIMIT 100 to prevent returning too many rows''
         @ [CHR 0x0A] @ ''5. Use proper JOINs when needed''
         @ [CHR 0x0A] @ ''6. The query must be valid and executable''
         @ [CHR 0x0A, CHR 0x0A] @ ''USER QUESTION:''
         @ [CHR 0x0A] @ question
         @ [CHR 0x0A, CHR 0x0A] @ ''SQL QUERY:'')"

text \<open>
  The three \<open>replace\<close> calls of \<open>cleanSqlResponse\<close>. Each pattern is anchored, so
  it deletes at most one match: an opening fence with the language tag \<open>sql\<close> in any
  letter case, an opening fence without tag, and a closing fence at the very end,
  each with the line feed next to it when there is one.
\<close>

definition dropOptionalNewline :: "string \<Rightarrow> string" where
  "dropOptionalNewline s =
     (case s of [] \<Rightarrow> [] | c # cs \<Rightarrow> if c = CHR 0x0A then cs else c # cs)"

definition removeLeadingSqlFence :: "string \<Rightarrow> string" where
  "removeLeadingSqlFence s =
     (if toLowerCase (take 6 s) = ''```sql'' then dropOptionalNewline (drop 6 s) else s)"

definition removeLeadingFence :: "string \<Rightarrow> string" where
  "removeLeadingFence s =
     (if js_startsWith s ''```'' then dropOptionalNewline (drop 3 s) else s)"

definition removeTrailingFence :: "string \<Rightarrow> string" where
  "removeTrailingFence s =
     (if js_endsWith s ''```''
      then (let t = take (length s - 3) s
            in if t \<noteq> [] \<and> last t = CHR 0x0A then butlast t else t)
      else s)"

definition stripFences :: "string \<Rightarrow> string" where
  "stripFences sql = removeTrailingFence (removeLeadingFence (removeLeadingSqlFence sql))"

text \<open>The predicate of \<open>lines.filter\<close>.\<close>

definition keepLine :: "string \<Rightarrow> bool" where
  "keepLine line =
     (let trimmed = js_trim line
      in trimmed \<noteq> []
         \<and> \<not> js_startsWith trimmed ''--''
         \<and> \<not> js_startsWith (toLowerCase trimmed) ''here''
         \<and> \<not> js_startsWith (toLowerCase trimmed) ''this query'')"

definition cleanSqlResponse :: "string \<Rightarrow> string" where
  "cleanSqlResponse response =
     (let sql = js_trim response;
          sql = stripFences sql;
          sql = js_trim sql;
          lines = js_split_lines sql;
          sqlLines = filter keepLine lines
      in js_trim (js_join [CHR 0x0A] sqlLines))"

text \<open>
  The orchestrator of the Gemini service. \<open>model prompt\<close> is the text of the model's
  answer to \<open>generateContent(prompt)\<close>, or \<open>Inl m\<close> when the call rejects. Here too
  the schema read has asked the pool once when the validator runs.
\<close>

definition generateSqlFromQuestion_AI ::
  "database \<Rightarrow> (string \<Rightarrow> string + string) \<Rightarrow> string \<Rightarrow> failure + string" where
  "generateSqlFromQuestion_AI db model question =
     (case getTableSchema db of
        Inl e \<Rightarrow> Inl e
      | Inr tables \<Rightarrow>
          (case model (buildPrompt question tables) of
             Inl m \<Rightarrow> Inl (GenerationUnavailable m)
           | Inr response \<Rightarrow>
               (let sqlQuery = cleanSqlResponse response
                in case validateSqlSyntax_AI db 1 sqlQuery of
                     Inl e \<Rightarrow> Inl e
                   | Inr validationResult \<Rightarrow>
                       if \<not> isValid validationResult
                       then Inl (ValidationFailed (case error validationResult of
                                                     Some m \<Rightarrow> m | None \<Rightarrow> ''undefined''))
                       else Inr sqlQuery)))"

section \<open>Vertex service: context retrieval, prompt, tagged-response parser, orchestrator\<close>

text \<open>
  The collaborators of the Vertex service: the embedding model, the two vector
  indexes (called with \<open>topK\<close> and the question's embedding; the answer is the list of
  the matches' metadata), \<open>JSON.stringify(_, null, 2)\<close> on a metadata list, and the
  language model. \<open>Inl m\<close> is a rejected call. The two index calls run under
  \<open>Promise.all\<close>, which rejects with the rejection that arrives first:
  \<open>queryRejectsFirst\<close> says, for the case that both calls reject, whether the query
  index's rejection is the earlier one.
\<close>

record ('v, 'm) services =
  embedQuery :: "string \<Rightarrow> string + 'v"
  tableIndex :: "nat \<Rightarrow> 'v \<Rightarrow> string + 'm list"
  queryIndex :: "nat \<Rightarrow> 'v \<Rightarrow> string + 'm list"
  queryRejectsFirst :: bool
  stringify :: "'m list \<Rightarrow> string"
  llm :: "string \<Rightarrow> string + string"

definition retrieveContext ::
  "('v, 'm) services \<Rightarrow> string \<Rightarrow> failure + ('m list \<times> 'm list)" where
  "retrieveContext sv question =
     (case embedQuery sv question of
        Inl m \<Rightarrow> Inl (ContextUnavailable m)
      | Inr questionEmbedding \<Rightarrow>
          (case (tableIndex sv 5 questionEmbedding, queryIndex sv 3 questionEmbedding) of
             (Inr relevantTables, Inr relevantExampleQueries) \<Rightarrow>
               Inr (relevantTables, relevantExampleQueries)
           | (Inl m, Inr relevantExampleQueries) \<Rightarrow> Inl (ContextUnavailable m)
           | (Inr relevantTables, Inl m) \<Rightarrow> Inl (ContextUnavailable m)
           | (Inl m1, Inl m2) \<Rightarrow>
               Inl (ContextUnavailable (if queryRejectsFirst sv then m2 else m1))))"

definition pad :: string where
  "pad = [CHR 0x0A] @ ''    ''"

definition buildCombinedPrompt ::
  "('m list \<Rightarrow> string) \<Rightarrow> string \<Rightarrow> 'm list \<Rightarrow> 'm list \<Rightarrow> string" where
  "buildCombinedPrompt json question relevantTables relevantExampleQueries =
     pad @ ''You are an expert SQL writer. Your task is to write a single, correct SQL query to answer the user's question by analyzing the provided context.''
     @ pad @ ''First, select the most appropriate table(s) from the 'Table Schemas' list. Then, generate the query.''
     @ [CHR 0x0A]
     @ pad @ ''===Rules for Table Selection''
     @ pad @ ''1. Use the 'tier' as a strong indicator of table quality. The priority is: Gold > Silver > Bronze > Iron.''
     @ pad @ ''2. Avoid 'Iron' tier tables if a better alternative exists.''
     @ [CHR 0x0A]
     @ pad @ ''===Rules for SQL Generation''
     @ pad @ ''1. Your response must start with <@query@> or <@explanation@>.''
     @ pad @ ''2. Respond only with a valid SQL query inside the <@query@> section.''
     @ pad @ ''3. CRITICAL RULE: Wrap all table and column names in double quotes (\").''
     @ pad @ ''4. If the context is insufficient, explain what is missing in the <@explanation@> section.''
     @ [CHR 0x0A]
     @ pad @ ''===SQL Dialect''
     @ pad @ ''PrestoSQL''
     @ [CHR 0x0A]
     @ pad @ ''===Table Schemas''
     @ pad @ json relevantTables
     @ [CHR 0x0A]
     @ pad @ ''===Example Queries (for inspiration)''
     @ pad @ json relevantExampleQueries
     @ [CHR 0x0A]
     @ pad @ ''===Question''
     @ pad @ question
     @ [CHR 0x0A] @ ''  ''"

text \<open>
  The \<open>while\<close> loop of \<open>parseAndValidateResponse\<close>: as long as the text contains
  an opening query tag, delete every opening and then every closing query tag.
\<close>

lemma length_js_removeAll_le: "length (js_removeAll p s) \<le> length s"
proof (induction p s rule: js_removeAll.induct)
  case (1 p)
  show ?case by simp
next
  case (2 p c cs)
  show ?case
  proof (cases "p \<noteq> [] \<and> js_startsWith (c # cs) p")
    case True
    with 2 have "length (js_removeAll p (drop (length p) (c # cs))) \<le> length (drop (length p) (c # cs))"
      by blast
    with True show ?thesis by simp
  next
    case False
    with 2 have "length (js_removeAll p cs) \<le> length cs" by blast
    with False show ?thesis by auto
  qed
qed

lemma length_js_removeAll_less:
  "p \<noteq> [] \<Longrightarrow> js_includes s p \<Longrightarrow> length (js_removeAll p s) < length s"
proof (induction s)
  case Nil
  then show ?case by simp
next
  case (Cons c cs)
  show ?case
  proof (cases "js_startsWith (c # cs) p")
    case True
    have "length (js_removeAll p (drop (length p) (c # cs))) \<le> length (drop (length p) (c # cs))"
      by (rule length_js_removeAll_le)
    moreover have "0 < length p"
      using Cons.prems(1) by simp
    then have "length (drop (length p) (c # cs)) < length (c # cs)"
      by simp
    ultimately have "length (js_removeAll p (drop (length p) (c # cs))) < length (c # cs)"
      by (rule le_less_trans)
    with True Cons.prems(1) show ?thesis by simp
  next
    case False
    with Cons.prems have "js_includes cs p" by simp
    with Cons.IH Cons.prems(1) have "length (js_removeAll p cs) < length cs" by blast
    with False show ?thesis by simp
  qed
qed

function stripQueryTags :: "string \<Rightarrow> string" where
  "stripQueryTags sqlQuery =
     (if js_includes sqlQuery ''<@query@>''
      then stripQueryTags (js_removeAll ''</@query@>'' (js_removeAll ''<@query@>'' sqlQuery))
      else sqlQuery)"
  by pat_completeness auto
termination
proof (relation "measure length")
  show "wf (measure length)" by simp
next
  fix sqlQuery :: string
  assume inc: "js_includes sqlQuery ''<@query@>''"
  have "length (js_removeAll ''</@query@>'' (js_removeAll ''<@query@>'' sqlQuery))
          \<le> length (js_removeAll ''<@query@>'' sqlQuery)"
    by (rule length_js_removeAll_le)
  also have "\<dots> < length sqlQuery"
    using inc by (intro length_js_removeAll_less) simp_all
  finally show "(js_removeAll ''</@query@>'' (js_removeAll ''<@query@>'' sqlQuery), sqlQuery)
                  \<in> measure length"
    by simp
qed

declare stripQueryTags.simps [simp del]

text \<open>
  \<open>afterFirst p s\<close> is the text that follows the leftmost occurrence of \<open>p\<close> in
  \<open>s\<close>. The two \<open>match\<close> calls of the parser reduce to it: the lazy pattern
  \<open><@query@>([\s\S]*?)</@query@>\<close> matches exactly when a closing tag occurs after
  the leftmost opening tag, and the first group of \<open><@explanation@>([\s\S]*)\<close> is
  everything after the leftmost explanation tag.
\<close>

fun afterFirst :: "string \<Rightarrow> string \<Rightarrow> string option" where
  "afterFirst p [] = (if p = [] then Some [] else None)"
| "afterFirst p (c # cs) =
     (if js_startsWith (c # cs) p then Some (drop (length p) (c # cs))
      else afterFirst p cs)"

definition matchQuery :: "string \<Rightarrow> bool" where
  "matchQuery response =
     (case afterFirst ''<@query@>'' response of
        None \<Rightarrow> False
      | Some rest \<Rightarrow> js_includes rest ''</@query@>'')"

definition explanationMatch :: "string \<Rightarrow> string option" where
  "explanationMatch response = afterFirst ''<@explanation@>'' response"

text \<open>
  The candidate statement the parser hands to the validator (\<open>''\<close> when none). The
  Vertex service reads no schema: its validator is the first to ask the pool.
\<close>

definition extractQuery :: "string \<Rightarrow> string" where
  "extractQuery response = (if matchQuery response then stripQueryTags response else [])"

definition parseAndValidateResponse :: "database \<Rightarrow> string \<Rightarrow> failure + string" where
  "parseAndValidateResponse db response =
     (let sqlQuery = extractQuery response
      in if sqlQuery = [] then
           (case explanationMatch response of
              None \<Rightarrow> Inl MalformedResponse
            | Some text \<Rightarrow>
                if text \<noteq> [] then Inl (NoQueryProduced (js_trim text))
                else Inl MalformedResponse)
         else
           (case validateSqlSyntax_vertex db 0 sqlQuery of
              Inl e \<Rightarrow> Inl e
            | Inr validationResult \<Rightarrow>
                if \<not> isValid validationResult
                then Inl (ValidationFailed (case error validationResult of
                                              Some m \<Rightarrow> m | None \<Rightarrow> ''undefined''))
                else Inr sqlQuery))"

definition generateSqlFromQuestion_vertex ::
  "database \<Rightarrow> ('v, 'm) services \<Rightarrow> string \<Rightarrow> failure + string" where
  "generateSqlFromQuestion_vertex db sv question =
     (case retrieveContext sv question of
        Inl e \<Rightarrow> Inl e
      | Inr (relevantTables, relevantExampleQueries) \<Rightarrow>
          (case llm sv (buildCombinedPrompt (stringify sv) question relevantTables
                          relevantExampleQueries) of
             Inl m \<Rightarrow> Inl (GenerationUnavailable m)
           | Inr finalResponse \<Rightarrow> parseAndValidateResponse db finalResponse))"

section \<open>The route \<open>POST /generate-sql\<close>\<close>

text \<open>
  The \<open>question\<close> field of the request body is any JSON value, or absent. The handler
  returns what it did to the response together with the list of questions it passed
  to the generator. A \<open>TypeError\<close> raised before the \<open>try\<close> block leaves the handler
  without a response.
\<close>

datatype jsval = JUndefined | JNull | JBoolean bool | JNumber int | JString string | JObject

fun truthy :: "jsval \<Rightarrow> bool" where
  "truthy JUndefined = False"
| "truthy JNull = False"
| "truthy (JBoolean b) = b"
| "truthy (JNumber n) = (n \<noteq> 0)"
| "truthy (JString s) = (s \<noteq> [])"
| "truthy JObject = True"

datatype body = SqlBody string | ErrorBody string

record response =
  status :: nat
  json :: body

datatype outcome = Responded response | Unhandled failure

definition generate_sql_route ::
  "(string \<Rightarrow> failure + string) \<Rightarrow> jsval \<Rightarrow> outcome \<times> string list" where
  "generate_sql_route generateSqlFromQuestion question =
     (if truthy question \<and> (case question of JString s \<Rightarrow> False | _ \<Rightarrow> True) then
        (Unhandled (TypeError ''question.substring is not a function''), [])
      else if \<not> truthy question then
        (Responded \<lparr>status = 400, json = ErrorBody ''Question is required.''\<rparr>, [])
      else
        (case question of
           JString q \<Rightarrow>
             (case generateSqlFromQuestion q of
                Inr sqlQuery \<Rightarrow> (Responded \<lparr>status = 200, json = SqlBody sqlQuery\<rparr>, [q])
              | Inl e \<Rightarrow>
                  (Responded \<lparr>status = 500, json = ErrorBody ''Failed to generate SQL query.''\<rparr>,
                   [q]))
         | _ \<Rightarrow> (Unhandled (TypeError ''question.substring is not a function''), [])))"

section \<open>Notions of the specification and an example environment\<close>


text \<open>
  Following the spec's words: a complete query tag pair is present in a response when
  an opening query tag is followed, anywhere later, by a closing query tag.
\<close>

definition queryPairPresent :: "string \<Rightarrow> bool" where
  "queryPairPresent response =
     (\<exists>before inside after.
        response = before @ ''<@query@>'' @ inside @ ''</@query@>'' @ after)"

text \<open>What the tables object holds once the rows \<open>seen\<close> have been read.\<close>

definition grouped :: "row list \<Rightarrow> (string \<times> TableSchema) list \<Rightarrow> bool" where
  "grouped seen tables =
     (distinct (map fst tables)
      \<and> fst ` set tables = table_name ` set seen
      \<and> (\<forall>(k, t) \<in> set tables.
            TableSchema.name t = k
            \<and> columns t = map columnOf (filter (\<lambda>r. table_name r = k) seen)))"

text \<open>
  The lines that \<open>cleanSqlResponse\<close> keeps: the value of its \<open>sqlLines\<close>.
\<close>

definition keptLines :: "string \<Rightarrow> string list" where
  "keptLines response =
     filter keepLine (js_split_lines (js_trim (stripFences (js_trim response))))"

text \<open>
  \<open>trimStart\<close> and \<open>trimEnd\<close> remove white space at one end only. Trimming a text
  of several lines as a whole trims the first line at its start and the last line at
  its end: \<open>outerTrimmed\<close> does that to a list of lines.
\<close>

definition trimStart :: "string \<Rightarrow> string" where
  "trimStart s = dropWhile isWhiteSpace s"

definition trimEnd :: "string \<Rightarrow> string" where
  "trimEnd s = rev (dropWhile isWhiteSpace (rev s))"

fun outerTrimmed :: "string list \<Rightarrow> string list" where
  "outerTrimmed [] = []"
| "outerTrimmed [l] = [js_trim l]"
| "outerTrimmed (l # m # ls) = trimStart l # butlast (m # ls) @ [trimEnd (last (m # ls))]"

text \<open>
  A database that hands out clients, holds one table \<open>products\<close> and explains every
  statement; a Gemini model and a Vertex tool chain that answer every prompt with the
  same statement.
\<close>

definition exampleDb :: database where
  "exampleDb =
     \<lparr>connect = (\<lambda>n. None),
      catalog = Inr [\<lparr>table_name = ''products'', column_name = ''id'',
                      data_type = ''integer'', is_nullable = ''NO''\<rparr>],
      query = (\<lambda>stmt. None)\<rparr>"

definition exampleModel :: "string \<Rightarrow> string + string" where
  "exampleModel prompt = Inr ''SELECT 1''"

definition exampleServices :: "(unit, unit) services" where
  "exampleServices =
     \<lparr>embedQuery = (\<lambda>question. Inr ()),
      tableIndex = (\<lambda>topK vector. Inr []),
      queryIndex = (\<lambda>topK vector. Inr []),
      queryRejectsFirst = False,
      stringify = (\<lambda>metadata. ''[]''),
      llm = (\<lambda>prompt. Inr ''<@query@>SELECT 1</@query@>'')\<rparr>"

text \<open>
  The same database, except that it refuses to explain the empty statement.
\<close>

definition busyDb :: database where
  "busyDb =
     \<lparr>connect = (\<lambda>n. None),
      catalog = Inr [\<lparr>table_name = ''products'', column_name = ''id'',
                      data_type = ''integer'', is_nullable = ''NO''\<rparr>],
      query = (\<lambda>stmt. if stmt = ''EXPLAIN '' then Some ''syntax error at end of input''
                      else None)\<rparr>"

text \<open>A Gemini model that answers every prompt with prose and a comment only.\<close>

definition proseModel :: "string \<Rightarrow> string + string" where
  "proseModel prompt = Inr (''Here is the query:'' @ [CHR 0x0A] @ ''-- it counts the rows'')"

section \<open>String primitives against the library's notions\<close>

lemma js_startsWith_prefix: "js_startsWith s p \<longleftrightarrow> prefix p s"
  by (induction s p rule: js_startsWith.induct) auto

lemma js_includes_sublist: "js_includes s p \<longleftrightarrow> sublist p s"
  by (induction s) (auto simp: js_startsWith_prefix sublist_Cons_right)

section \<open>The validation boundary\<close>

lemma explainCheck_valid:
  "explainCheck db n s = Inr vr \<Longrightarrow> isValid vr \<Longrightarrow> vr = \<lparr>isValid = True, error = None\<rparr>"
  by (auto simp: explainCheck_def split: option.splits)

lemma validate_simple_valid:
  "validateSqlSyntax_simple db n s = Inr vr \<Longrightarrow> isValid vr
   \<Longrightarrow> vr = \<lparr>isValid = True, error = None\<rparr>"
  by (auto simp: validateSqlSyntax_simple_def forbiddenResult_def
      split: option.splits dest: explainCheck_valid)

lemma validate_AI_valid:
  "validateSqlSyntax_AI db n s = Inr vr \<Longrightarrow> isValid vr
   \<Longrightarrow> vr = \<lparr>isValid = True, error = None\<rparr>"
  by (auto simp: validateSqlSyntax_AI_def forbiddenResult_def
      split: option.splits dest: explainCheck_valid)

lemma validate_vertex_valid:
  "validateSqlSyntax_vertex db n s = Inr vr \<Longrightarrow> isValid vr
   \<Longrightarrow> vr = \<lparr>isValid = True, error = None\<rparr>"
  by (auto simp: validateSqlSyntax_vertex_def forbiddenResult_def
      split: option.splits dest: explainCheck_valid)

lemma simple_returns_validated:
  "generateSqlFromQuestion_simple db question = Inr sql
   \<Longrightarrow> validateSqlSyntax_simple db 1 sql = Inr \<lparr>isValid = True, error = None\<rparr>"
  by (auto simp: generateSqlFromQuestion_simple_def
      split: sum.splits if_splits dest: validate_simple_valid)

lemma AI_returns_validated:
  "generateSqlFromQuestion_AI db model question = Inr sql
   \<Longrightarrow> validateSqlSyntax_AI db 1 sql = Inr \<lparr>isValid = True, error = None\<rparr>"
  by (auto simp: generateSqlFromQuestion_AI_def Let_def
      split: sum.splits if_splits dest: validate_AI_valid)

lemma parse_returns_validated:
  "parseAndValidateResponse db response = Inr sql
   \<Longrightarrow> validateSqlSyntax_vertex db 0 sql = Inr \<lparr>isValid = True, error = None\<rparr>"
  by (auto simp: parseAndValidateResponse_def Let_def
      split: sum.splits if_splits option.splits dest: validate_vertex_valid)

lemma vertex_returns_validated:
  "generateSqlFromQuestion_vertex db sv question = Inr sql
   \<Longrightarrow> validateSqlSyntax_vertex db 0 sql = Inr \<lparr>isValid = True, error = None\<rparr>"
  by (auto simp: generateSqlFromQuestion_vertex_def
      split: sum.splits prod.splits dest: parse_returns_validated)

text \<open>
  Claim C1. Whatever one of the three orchestrators returns as SQL has been given to
  that service's validator, and the validator has answered \<open>isValid: true\<close> for it.
  Conversely, a statement for which the validator answers \<open>isValid: false\<close> is never
  the orchestrator's result: the orchestrator ends in an error instead.
\<close>

theorem no_unvalidated_sql:
  "(generateSqlFromQuestion_simple db question = Inr sql
      \<longrightarrow> validateSqlSyntax_simple db 1 sql = Inr \<lparr>isValid = True, error = None\<rparr>)
   \<and> (generateSqlFromQuestion_AI db model question = Inr sql
      \<longrightarrow> validateSqlSyntax_AI db 1 sql = Inr \<lparr>isValid = True, error = None\<rparr>)
   \<and> (generateSqlFromQuestion_vertex db sv question = Inr sql
      \<longrightarrow> validateSqlSyntax_vertex db 0 sql = Inr \<lparr>isValid = True, error = None\<rparr>)
   \<and> (\<forall>vr. validateSqlSyntax_simple db 1 sql = Inr vr \<and> \<not> isValid vr
      \<longrightarrow> generateSqlFromQuestion_simple db question \<noteq> Inr sql)
   \<and> (\<forall>vr. validateSqlSyntax_AI db 1 sql = Inr vr \<and> \<not> isValid vr
      \<longrightarrow> generateSqlFromQuestion_AI db model question \<noteq> Inr sql)
   \<and> (\<forall>vr. validateSqlSyntax_vertex db 0 sql = Inr vr \<and> \<not> isValid vr
      \<longrightarrow> generateSqlFromQuestion_vertex db sv question \<noteq> Inr sql)"
proof -
  have s: "generateSqlFromQuestion_simple db question = Inr sql
      \<longrightarrow> validateSqlSyntax_simple db 1 sql = Inr \<lparr>isValid = True, error = None\<rparr>"
    using simple_returns_validated by blast
  have a: "generateSqlFromQuestion_AI db model question = Inr sql
      \<longrightarrow> validateSqlSyntax_AI db 1 sql = Inr \<lparr>isValid = True, error = None\<rparr>"
    using AI_returns_validated by blast
  have v: "generateSqlFromQuestion_vertex db sv question = Inr sql
      \<longrightarrow> validateSqlSyntax_vertex db 0 sql = Inr \<lparr>isValid = True, error = None\<rparr>"
    using vertex_returns_validated by blast
  from s have s': "\<forall>vr. validateSqlSyntax_simple db 1 sql = Inr vr \<and> \<not> isValid vr
      \<longrightarrow> generateSqlFromQuestion_simple db question \<noteq> Inr sql"
    by auto
  from a have a': "\<forall>vr. validateSqlSyntax_AI db 1 sql = Inr vr \<and> \<not> isValid vr
      \<longrightarrow> generateSqlFromQuestion_AI db model question \<noteq> Inr sql"
    by auto
  from v have v': "\<forall>vr. validateSqlSyntax_vertex db 0 sql = Inr vr \<and> \<not> isValid vr
      \<longrightarrow> generateSqlFromQuestion_vertex db sv question \<noteq> Inr sql"
    by auto
  from s a v s' a' v' show ?thesis by blast
qed

theorem no_unvalidated_sql_witness:
  "generateSqlFromQuestion_simple exampleDb ''Count all products'' =
        Inr ''SELECT COUNT(*) as total FROM products''
   \<and> validateSqlSyntax_simple exampleDb 1 ''SELECT COUNT(*) as total FROM products'' =
        Inr \<lparr>isValid = True, error = None\<rparr>
   \<and> generateSqlFromQuestion_AI exampleDb exampleModel ''Count all products'' = Inr ''SELECT 1''
   \<and> validateSqlSyntax_AI exampleDb 1 ''SELECT 1'' = Inr \<lparr>isValid = True, error = None\<rparr>
   \<and> generateSqlFromQuestion_vertex exampleDb exampleServices ''Count all products'' =
        Inr ''SELECT 1''
   \<and> validateSqlSyntax_vertex exampleDb 0 ''SELECT 1'' = Inr \<lparr>isValid = True, error = None\<rparr>"
proof -
  have s: "generateSqlFromQuestion_simple exampleDb ''Count all products'' =
        Inr ''SELECT COUNT(*) as total FROM products''"
    unfolding exampleDb_def by code_simp
  have a: "generateSqlFromQuestion_AI exampleDb exampleModel ''Count all products'' =
        Inr ''SELECT 1''"
    unfolding exampleDb_def exampleModel_def by code_simp
  have v: "generateSqlFromQuestion_vertex exampleDb exampleServices ''Count all products'' =
        Inr ''SELECT 1''"
    unfolding exampleDb_def exampleServices_def by code_simp
  from s no_unvalidated_sql [of exampleDb "''Count all products''"
      "''SELECT COUNT(*) as total FROM products''" exampleModel exampleServices]
  have s': "validateSqlSyntax_simple exampleDb 1 ''SELECT COUNT(*) as total FROM products'' =
        Inr \<lparr>isValid = True, error = None\<rparr>"
    by blast
  from a v no_unvalidated_sql [of exampleDb "''Count all products''" "''SELECT 1''"
      exampleModel exampleServices]
  have a': "validateSqlSyntax_AI exampleDb 1 ''SELECT 1'' = Inr \<lparr>isValid = True, error = None\<rparr>"
    and v': "validateSqlSyntax_vertex exampleDb 0 ''SELECT 1'' = Inr \<lparr>isValid = True, error = None\<rparr>"
    by blast+
  from s a v s' a' v' show ?thesis by blast
qed

section \<open>The pattern-matching generator\<close>

text \<open>
  Claim C6. For the question \<open>Count all products\<close> the pattern-matching generator
  produces exactly \<open>SELECT COUNT(*) as total FROM products\<close>, whatever the schema.
  The keyword screen finds no forbidden keyword in it, and against a database that
  hands out a client and explains the statement (as one holding the table does) the
  validator answers \<open>isValid: true\<close> and the orchestrator returns the statement.
\<close>

theorem count_all_products:
  "generateSimpleQuery ''Count all products'' tables = Inr ''SELECT COUNT(*) as total FROM products''
   \<and> foundForbiddenKeyword_simple ''SELECT COUNT(*) as total FROM products'' = None
   \<and> (connect db 1 = None \<and> query db ''EXPLAIN SELECT COUNT(*) as total FROM products'' = None
        \<longrightarrow> validateSqlSyntax_simple db 1 ''SELECT COUNT(*) as total FROM products'' =
              Inr \<lparr>isValid = True, error = None\<rparr>
            \<and> (getTableSchema db = Inr tables
                \<longrightarrow> generateSqlFromQuestion_simple db ''Count all products'' =
                      Inr ''SELECT COUNT(*) as total FROM products''))"
proof -
  have g: "generateSimpleQuery ''Count all products'' tables =
             Inr ''SELECT COUNT(*) as total FROM products''" for tables
    by code_simp
  have k: "foundForbiddenKeyword_simple ''SELECT COUNT(*) as total FROM products'' = None"
    by code_simp
  have v: "validateSqlSyntax_simple db 1 ''SELECT COUNT(*) as total FROM products'' =
              Inr \<lparr>isValid = True, error = None\<rparr>"
    if "connect db 1 = None" "query db ''EXPLAIN SELECT COUNT(*) as total FROM products'' = None"
    using that by (simp add: validateSqlSyntax_simple_def k explainCheck_def)
  have p: "generateSqlFromQuestion_simple db ''Count all products'' =
                      Inr ''SELECT COUNT(*) as total FROM products''"
    if "connect db 1 = None" "query db ''EXPLAIN SELECT COUNT(*) as total FROM products'' = None"
       "getTableSchema db = Inr tables"
    using that v by (simp add: generateSqlFromQuestion_simple_def g)
  from g k v p show ?thesis by blast
qed

theorem count_all_products_witness:
  "connect exampleDb 1 = None
   \<and> query exampleDb ''EXPLAIN SELECT COUNT(*) as total FROM products'' = None
   \<and> getTableSchema exampleDb =
        Inr [\<lparr>name = ''products'',
              columns = [\<lparr>Column.name = ''id'', type = ''integer'', nullable = False\<rparr>]\<rparr>]
   \<and> generateSqlFromQuestion_simple exampleDb ''Count all products'' =
        Inr ''SELECT COUNT(*) as total FROM products''"
proof -
  have c: "connect exampleDb 1 = None" by (simp add: exampleDb_def)
  have q: "query exampleDb ''EXPLAIN SELECT COUNT(*) as total FROM products'' = None"
    by (simp add: exampleDb_def)
  have t: "getTableSchema exampleDb =
        Inr [\<lparr>name = ''products'',
              columns = [\<lparr>Column.name = ''id'', type = ''integer'', nullable = False\<rparr>]\<rparr>]"
    unfolding exampleDb_def by code_simp
  from c q t count_all_products [of _ exampleDb] show ?thesis by blast
qed

text \<open>
  Claim C10. When the lower-cased question contains both \<open>count\<close> and \<open>users\<close>,
  the generator answers with the aggregate query over \<open>users\<close>, with the filter on
  active users exactly when the lower-cased question also contains \<open>active\<close>, and
  never with a row-listing query \<open>SELECT * FROM users ... LIMIT 100\<close>.
\<close>

theorem count_users_precedence:
  assumes "sublist ''count'' (toLowerCase question)"
      and "sublist ''users'' (toLowerCase question)"
  shows "generateSimpleQuery question tables =
           Inr (if sublist ''active'' (toLowerCase question)
                then ''SELECT COUNT(*) as total FROM users WHERE status = 'active'' @ [CHR 0x27]
                else ''SELECT COUNT(*) as total FROM users'')
         \<and> (\<forall>w. generateSimpleQuery question tables
                \<noteq> Inr (''SELECT * FROM users'' @ w @ '' LIMIT 100''))"
  using assms by (simp add: generateSimpleQuery_def js_includes_sublist)

theorem count_users_precedence_witness:
  "sublist ''count'' (toLowerCase ''Count active USERS'')
   \<and> sublist ''users'' (toLowerCase ''Count active USERS'')
   \<and> sublist ''active'' (toLowerCase ''Count active USERS'')
   \<and> generateSimpleQuery ''Count active USERS'' [] =
        Inr (''SELECT COUNT(*) as total FROM users WHERE status = 'active'' @ [CHR 0x27])
   \<and> generateSimpleQuery ''Count active USERS'' []
        \<noteq> Inr (''SELECT * FROM users'' @ '' WHERE status = 'active'' @ [CHR 0x27]
                 @ '' LIMIT 100'')"
proof -
  have c: "sublist ''count'' (toLowerCase ''Count active USERS'')"
    unfolding js_includes_sublist [symmetric] by code_simp
  have u: "sublist ''users'' (toLowerCase ''Count active USERS'')"
    unfolding js_includes_sublist [symmetric] by code_simp
  have a: "sublist ''active'' (toLowerCase ''Count active USERS'')"
    unfolding js_includes_sublist [symmetric] by code_simp
  from count_users_precedence [OF c u, of "[]"] a c u show ?thesis
    by simp
qed

lemma if_chain_step:
  "(if c then A else X) = Inr s \<Longrightarrow> (X = Inr s \<Longrightarrow> X' = Inr s)
   \<Longrightarrow> (if c then A else X') = Inr s"
  by (cases c) simp_all

lemma generateSimpleQuery_tables_irrelevant:
  "generateSimpleQuery question tables = Inr sql
   \<Longrightarrow> generateSimpleQuery question tables' = Inr sql"
  unfolding generateSimpleQuery_def Let_def
  apply (erule if_chain_step)+
  apply simp
  done

lemma getTableSchema_catalog:
  "catalog db1 = catalog db2 \<Longrightarrow> getTableSchema db1 = Inr t1 \<Longrightarrow> getTableSchema db2 = Inr t2
   \<Longrightarrow> t1 = t2"
  by (auto simp: getTableSchema_def split: option.splits sum.splits)

lemma simple_result_generated:
  "generateSqlFromQuestion_simple db question = Inr sql
   \<Longrightarrow> \<exists>tables. getTableSchema db = Inr tables \<and> generateSimpleQuery question tables = Inr sql"
  by (auto simp: generateSqlFromQuestion_simple_def split: sum.splits if_splits)

text \<open>
  Claim C7. The pattern-matching path is deterministic: two runs on the same question
  against databases with the same catalog answer (whatever else differs between them:
  the pool, the answers to \<open>EXPLAIN\<close>) that both return SQL return the same text.
  The text is a function of the question and the schema snapshot only.
\<close>

theorem pattern_path_deterministic:
  assumes "catalog db1 = catalog db2"
      and "generateSqlFromQuestion_simple db1 question = Inr sql1"
      and "generateSqlFromQuestion_simple db2 question = Inr sql2"
  shows "sql1 = sql2"
proof -
  from assms(2) obtain t1 where t1: "getTableSchema db1 = Inr t1"
    and g1: "generateSimpleQuery question t1 = Inr sql1"
    using simple_result_generated by blast
  from assms(3) obtain t2 where t2: "getTableSchema db2 = Inr t2"
    and g2: "generateSimpleQuery question t2 = Inr sql2"
    using simple_result_generated by blast
  from assms(1) t1 t2 have "t1 = t2" by (rule getTableSchema_catalog)
  with g1 g2 show ?thesis by simp
qed

theorem pattern_path_deterministic_witness:
  "catalog exampleDb = catalog busyDb
   \<and> generateSqlFromQuestion_simple exampleDb ''Show active users'' =
        Inr (''SELECT * FROM users WHERE status = 'active'' @ [CHR 0x27] @ '' LIMIT 100'')
   \<and> generateSqlFromQuestion_simple busyDb ''Show active users'' =
        generateSqlFromQuestion_simple exampleDb ''Show active users''"
proof -
  have c: "catalog exampleDb = catalog busyDb"
    by (simp add: exampleDb_def busyDb_def)
  have r1: "generateSqlFromQuestion_simple exampleDb ''Show active users'' =
        Inr (''SELECT * FROM users WHERE status = 'active'' @ [CHR 0x27] @ '' LIMIT 100'')"
    unfolding exampleDb_def by code_simp
  have "case generateSqlFromQuestion_simple busyDb ''Show active users'' of
          Inl e \<Rightarrow> False | Inr sql \<Rightarrow> True"
    unfolding busyDb_def by code_simp
  then obtain sql2 where r2: "generateSqlFromQuestion_simple busyDb ''Show active users'' = Inr sql2"
    by (auto split: sum.splits)
  from pattern_path_deterministic [OF c r1 r2] r1 r2 c show ?thesis by simp
qed

section \<open>The request handler\<close>

text \<open>
  Claim C8. A request whose \<open>question\<close> is empty, missing or otherwise falsy is
  answered with status 400 and the error \<open>Question is required.\<close>, and the handler
  has not called the SQL generator: the list of generator calls is empty.
\<close>

theorem empty_question_rejected:
  assumes "\<not> truthy question"
  shows "generate_sql_route generateSqlFromQuestion question =
           (Responded \<lparr>status = 400, json = ErrorBody ''Question is required.''\<rparr>, [])"
  using assms by (simp add: generate_sql_route_def)

theorem empty_question_rejected_witness:
  "\<not> truthy (JString '''')
   \<and> generate_sql_route (generateSqlFromQuestion_AI exampleDb exampleModel) (JString '''') =
        (Responded \<lparr>status = 400, json = ErrorBody ''Question is required.''\<rparr>, [])
   \<and> snd (generate_sql_route (generateSqlFromQuestion_AI exampleDb exampleModel)
             (JString ''Count all products'')) = [''Count all products'']"
proof -
  have f: "\<not> truthy (JString '''')" by simp
  have "snd (generate_sql_route (generateSqlFromQuestion_AI exampleDb exampleModel)
             (JString ''Count all products'')) = [''Count all products'']"
    by (simp add: generate_sql_route_def split: sum.splits)
  with f empty_question_rejected [OF f, of "generateSqlFromQuestion_AI exampleDb exampleModel"]
  show ?thesis by simp
qed

section \<open>The keyword screen\<close>







section \<open>The tagged-response parser\<close>

lemma afterFirst_Some_decomp:
  "afterFirst p s = Some r \<Longrightarrow> \<exists>pre. s = pre @ p @ r"
proof (induction s)
  case Nil
  then show ?case by (simp split: if_splits)
next
  case (Cons c cs)
  show ?case
  proof (cases "js_startsWith (c # cs) p")
    case True
    with Cons.prems have r: "r = drop (length p) (c # cs)" by simp
    from True obtain post where "c # cs = p @ post"
      by (auto simp: js_startsWith_prefix prefix_def)
    with r have "c # cs = [] @ p @ r" by simp
    then show ?thesis by blast
  next
    case False
    with Cons.prems have "afterFirst p cs = Some r" by simp
    with Cons.IH obtain pre where "cs = pre @ p @ r" by blast
    then have "c # cs = (c # pre) @ p @ r" by simp
    then show ?thesis by blast
  qed
qed

lemma afterFirst_None_iff: "afterFirst p s = None \<longleftrightarrow> \<not> sublist p s"
  by (induction s) (auto simp: js_startsWith_prefix sublist_Cons_right)

lemma afterFirst_leftmost:
  "afterFirst p s = Some r \<Longrightarrow> s = a @ p @ b @ q @ c \<Longrightarrow> sublist q r"
proof (induction s arbitrary: a)
  case Nil
  then show ?case by (simp split: if_splits)
next
  case (Cons x xs)
  show ?case
  proof (cases "js_startsWith (x # xs) p")
    case True
    with Cons.prems(1) have "r = drop (length p) (x # xs)" by simp
    with Cons.prems(2) have "r = drop (length p) (a @ p @ b) @ q @ c" by simp
    then show ?thesis by (simp only: sublist_appendI)
  next
    case False
    with Cons.prems(1) have af: "afterFirst p xs = Some r" by simp
    from False Cons.prems(2) have "a \<noteq> []"
      by (auto simp: js_startsWith_prefix)
    with Cons.prems(2) obtain a' where "xs = a' @ p @ b @ q @ c"
      by (cases a) auto
    with af Cons.IH show ?thesis by blast
  qed
qed

lemma matchQuery_iff: "matchQuery response \<longleftrightarrow> queryPairPresent response"
proof
  assume "matchQuery response"
  then obtain rest where af: "afterFirst ''<@query@>'' response = Some rest"
    and inc: "sublist ''</@query@>'' rest"
    by (auto simp: matchQuery_def js_includes_sublist split: option.splits)
  from af obtain pre where "response = pre @ ''<@query@>'' @ rest"
    using afterFirst_Some_decomp by blast
  moreover from inc obtain b c where "rest = b @ ''</@query@>'' @ c"
    by (auto simp: sublist_def)
  ultimately have "response = pre @ ''<@query@>'' @ b @ ''</@query@>'' @ c" by simp
  then show "queryPairPresent response"
    unfolding queryPairPresent_def by blast
next
  assume "queryPairPresent response"
  then obtain a b c where r: "response = a @ ''<@query@>'' @ b @ ''</@query@>'' @ c"
    unfolding queryPairPresent_def by blast
  then have "sublist ''<@query@>'' response" by (auto simp: sublist_def)
  then obtain rest where af: "afterFirst ''<@query@>'' response = Some rest"
    using afterFirst_None_iff [of "''<@query@>''" response] by (cases "afterFirst ''<@query@>'' response") auto
  from afterFirst_leftmost [OF af r] have "sublist ''</@query@>'' rest" .
  with af show "matchQuery response"
    by (simp add: matchQuery_def js_includes_sublist)
qed

lemma afterFirst_prefix: "p \<noteq> [] \<Longrightarrow> afterFirst p (p @ r) = Some r"
  by (cases p) (simp_all add: js_startsWith_prefix)

lemma afterFirst_leftmost_tag:
  assumes "p \<noteq> []" and "\<not> sublist p (before @ butlast p)"
  shows "afterFirst p (before @ p @ r) = Some r"
  using assms(2)
proof (induction before)
  case Nil
  from assms(1) show ?case by (simp add: afterFirst_prefix)
next
  case (Cons c cs)
  have ns: "\<not> js_startsWith ((c # cs) @ p @ r) p"
  proof
    assume "js_startsWith ((c # cs) @ p @ r) p"
    then have pre: "prefix p ((c # cs) @ p @ r)" by (simp only: js_startsWith_prefix)
    from assms(1) have "p = butlast p @ [last p]" by simp
    then have "p @ r = butlast p @ (last p # r)"
      by (metis append_Cons append_Nil append_assoc)
    then have eqX: "(c # cs) @ p @ r = ((c # cs) @ butlast p) @ (last p # r)"
      by simp
    have "prefix ((c # cs) @ butlast p) (((c # cs) @ butlast p) @ (last p # r))"
      by (rule prefixI) simp
    then have pq: "prefix ((c # cs) @ butlast p) ((c # cs) @ p @ r)"
      by (simp only: eqX)
    have "length p \<le> length ((c # cs) @ butlast p)" by simp
    with pre pq have "prefix p ((c # cs) @ butlast p)"
      by (rule prefix_length_prefix)
    then have "sublist p ((c # cs) @ butlast p)" by (rule prefix_imp_sublist)
    with Cons.prems show False by simp
  qed
  from Cons.prems have "\<not> sublist p (cs @ butlast p)"
    by (simp add: sublist_Cons_right)
  with Cons.IH have "afterFirst p (cs @ p @ r) = Some r" by simp
  with ns show ?case by simp
qed

text \<open>
  Claim C4, as amended. A response without a complete query tag pair never yields SQL.
  The explanation is what follows the first explanation tag, up to the end of the
  response: the parser knows no closing explanation tag, so one at the end stays in
  the text. When that text is not empty the parser fails with it, trimmed (for a
  response that is the tag and \<open>missing table X\<close>, with exactly that text); when
  nothing follows the tag, or no explanation tag is present, it fails with
  \<open>MalformedResponse\<close>.
\<close>

theorem no_query_fails:
  assumes "\<not> queryPairPresent response"
  shows "(\<forall>sql. parseAndValidateResponse db response \<noteq> Inr sql)
     \<and> (\<forall>before expl.
           response = before @ ''<@explanation@>'' @ expl
           \<and> \<not> sublist ''<@explanation@>'' (before @ butlast ''<@explanation@>'')
           \<longrightarrow> parseAndValidateResponse db response =
                 (if expl \<noteq> [] then Inl (NoQueryProduced (js_trim expl))
                  else Inl MalformedResponse))
     \<and> (\<forall>expl. response = ''<@explanation@>'' @ expl \<and> expl \<noteq> []
          \<longrightarrow> parseAndValidateResponse db response = Inl (NoQueryProduced (js_trim expl)))
     \<and> (\<not> sublist ''<@explanation@>'' response
          \<longrightarrow> parseAndValidateResponse db response = Inl MalformedResponse)"
proof -
  from assms have e: "extractQuery response = []"
    by (simp add: extractQuery_def matchQuery_iff)
  have 1: "\<forall>sql. parseAndValidateResponse db response \<noteq> Inr sql"
    using e by (simp add: parseAndValidateResponse_def split: option.splits)
  have 2: "\<forall>before expl.
           response = before @ ''<@explanation@>'' @ expl
           \<and> \<not> sublist ''<@explanation@>'' (before @ butlast ''<@explanation@>'')
           \<longrightarrow> parseAndValidateResponse db response =
                 (if expl \<noteq> [] then Inl (NoQueryProduced (js_trim expl))
                  else Inl MalformedResponse)"
  proof (intro allI impI)
    fix before expl
    assume h: "response = before @ ''<@explanation@>'' @ expl
           \<and> \<not> sublist ''<@explanation@>'' (before @ butlast ''<@explanation@>'')"
    then have "afterFirst ''<@explanation@>'' (before @ ''<@explanation@>'' @ expl) = Some expl"
      by (intro afterFirst_leftmost_tag) simp_all
    with h have "explanationMatch response = Some expl"
      by (simp only: explanationMatch_def)
    with e show "parseAndValidateResponse db response =
                 (if expl \<noteq> [] then Inl (NoQueryProduced (js_trim expl))
                  else Inl MalformedResponse)"
      by (simp add: parseAndValidateResponse_def)
  qed
  have 3: "\<forall>expl. response = ''<@explanation@>'' @ expl \<and> expl \<noteq> []
          \<longrightarrow> parseAndValidateResponse db response = Inl (NoQueryProduced (js_trim expl))"
  proof (intro allI impI)
    fix expl assume t: "response = ''<@explanation@>'' @ expl \<and> expl \<noteq> []"
    then have "explanationMatch response = Some expl"
      unfolding explanationMatch_def using afterFirst_prefix [of "''<@explanation@>''" expl]
      by simp
    with e t show "parseAndValidateResponse db response = Inl (NoQueryProduced (js_trim expl))"
      by (simp add: parseAndValidateResponse_def)
  qed
  have 4: "\<not> sublist ''<@explanation@>'' response
          \<longrightarrow> parseAndValidateResponse db response = Inl MalformedResponse"
  proof
    assume "\<not> sublist ''<@explanation@>'' response"
    then have "afterFirst ''<@explanation@>'' response = None"
      by (simp add: afterFirst_None_iff)
    with e show "parseAndValidateResponse db response = Inl MalformedResponse"
      by (simp add: parseAndValidateResponse_def explanationMatch_def)
  qed
  from 1 2 3 4 show ?thesis by blast
qed

theorem no_query_fails_witness:
  "\<not> queryPairPresent ''<@explanation@>missing table X''
   \<and> parseAndValidateResponse exampleDb ''<@explanation@>missing table X'' =
        Inl (NoQueryProduced ''missing table X'')
   \<and> message (NoQueryProduced ''missing table X'') = ''LLM explanation: missing table X''
   \<and> \<not> queryPairPresent ''Sorry. <@explanation@>  ''
   \<and> parseAndValidateResponse exampleDb ''Sorry. <@explanation@>  '' = Inl (NoQueryProduced [])
   \<and> \<not> queryPairPresent ''Sorry. <@explanation@>''
   \<and> parseAndValidateResponse exampleDb ''Sorry. <@explanation@>'' = Inl MalformedResponse
   \<and> \<not> queryPairPresent ''I need the orders table.''
   \<and> \<not> sublist ''<@explanation@>'' ''I need the orders table.''
   \<and> parseAndValidateResponse exampleDb ''I need the orders table.'' = Inl MalformedResponse"
proof -
  have "\<not> matchQuery ''<@explanation@>missing table X''" by code_simp
  then have q1: "\<not> queryPairPresent ''<@explanation@>missing table X''"
    using matchQuery_iff by blast
  have t: "js_trim ''missing table X'' = ''missing table X''" by code_simp
  have "''<@explanation@>missing table X'' = ''<@explanation@>'' @ ''missing table X''
        \<and> ''missing table X'' \<noteq> []"
    by simp
  with no_query_fails [OF q1, of exampleDb] t
  have r1: "parseAndValidateResponse exampleDb ''<@explanation@>missing table X'' =
        Inl (NoQueryProduced ''missing table X'')"
    by metis
  have "\<not> js_includes (''Sorry. '' @ butlast ''<@explanation@>'') ''<@explanation@>''"
    by code_simp
  then have lm: "\<not> sublist ''<@explanation@>'' (''Sorry. '' @ butlast ''<@explanation@>'')"
    using js_includes_sublist by blast
  have "\<not> matchQuery ''Sorry. <@explanation@>  ''" by code_simp
  then have q3: "\<not> queryPairPresent ''Sorry. <@explanation@>  ''"
    using matchQuery_iff by blast
  have t3: "js_trim ''  '' = []" by code_simp
  have d3: "''Sorry. <@explanation@>  '' = ''Sorry. '' @ ''<@explanation@>'' @ ''  ''" by simp
  from no_query_fails [OF q3, of exampleDb] d3 lm
  have "parseAndValidateResponse exampleDb ''Sorry. <@explanation@>  '' =
          (if ''  '' \<noteq> [] then Inl (NoQueryProduced (js_trim ''  '')) else Inl MalformedResponse)"
    by blast
  with t3 have r3: "parseAndValidateResponse exampleDb ''Sorry. <@explanation@>  '' =
          Inl (NoQueryProduced [])"
    by simp
  have "\<not> matchQuery ''Sorry. <@explanation@>''" by code_simp
  then have q4: "\<not> queryPairPresent ''Sorry. <@explanation@>''"
    using matchQuery_iff by blast
  have d4: "''Sorry. <@explanation@>'' = ''Sorry. '' @ ''<@explanation@>'' @ []" by simp
  from no_query_fails [OF q4, of exampleDb] d4 lm
  have "parseAndValidateResponse exampleDb ''Sorry. <@explanation@>'' =
          (if ([]::string) \<noteq> [] then Inl (NoQueryProduced (js_trim [])) else Inl MalformedResponse)"
    by blast
  then have r4: "parseAndValidateResponse exampleDb ''Sorry. <@explanation@>'' = Inl MalformedResponse"
    by simp
  have "\<not> matchQuery ''I need the orders table.''" by code_simp
  then have q2: "\<not> queryPairPresent ''I need the orders table.''"
    using matchQuery_iff by blast
  have "\<not> js_includes ''I need the orders table.'' ''<@explanation@>''" by code_simp
  then have n: "\<not> sublist ''<@explanation@>'' ''I need the orders table.''"
    using js_includes_sublist by blast
  with no_query_fails [OF q2, of exampleDb]
  have r2: "parseAndValidateResponse exampleDb ''I need the orders table.'' = Inl MalformedResponse"
    by blast
  from q1 r1 q3 r3 q4 r4 q2 n r2 show ?thesis by simp
qed

text \<open>
  The claim as stated fails on the explanation section written with a closing tag, the
  way the spec writes it: the closing tag is part of the text the parser fails with.
\<close>

theorem explanation_closing_tag_counterexample:
  "\<not> queryPairPresent ''<@explanation@>missing table X</@explanation@>''
   \<and> parseAndValidateResponse exampleDb ''<@explanation@>missing table X</@explanation@>'' =
        Inl (NoQueryProduced ''missing table X</@explanation@>'')
   \<and> parseAndValidateResponse exampleDb ''<@explanation@>missing table X</@explanation@>'' \<noteq>
        Inl (NoQueryProduced ''missing table X'')"
proof -
  have "\<not> matchQuery ''<@explanation@>missing table X</@explanation@>''" by code_simp
  then have a: "\<not> queryPairPresent ''<@explanation@>missing table X</@explanation@>''"
    using matchQuery_iff by blast
  have b: "parseAndValidateResponse exampleDb ''<@explanation@>missing table X</@explanation@>'' =
        Inl (NoQueryProduced ''missing table X</@explanation@>'')"
    unfolding exampleDb_def by code_simp
  from a b show ?thesis by simp
qed

lemma js_removeAll_prefix: "p \<noteq> [] \<Longrightarrow> js_removeAll p (p @ r) = js_removeAll p r"
  by (cases p) (simp_all add: js_startsWith_prefix)

lemma js_removeAll_append_absent:
  "x \<notin> set q \<Longrightarrow> js_removeAll (x # xs) (q @ r) = q @ js_removeAll (x # xs) r"
  by (induction q) auto

lemma not_includes_absent: "x \<notin> set s \<Longrightarrow> \<not> js_includes s (x # xs)"
  by (induction s) auto

lemma stripQueryTags_pair:
  assumes "CHR ''<'' \<notin> set q"
  shows "stripQueryTags (''<@query@>'' @ q @ ''</@query@>'') = q"
proof -
  have inc: "js_includes (''<@query@>'' @ q @ ''</@query@>'') ''<@query@>''"
    by (simp add: js_includes_sublist)
  have c1: "js_removeAll ''<@query@>'' ''</@query@>'' = ''</@query@>''" by code_simp
  have c2: "js_removeAll ''</@query@>'' ''</@query@>'' = []" by code_simp
  have "js_removeAll ''<@query@>'' (''<@query@>'' @ q @ ''</@query@>'')
          = js_removeAll ''<@query@>'' (q @ ''</@query@>'')"
    by (rule js_removeAll_prefix) simp
  also have "\<dots> = q @ js_removeAll ''<@query@>'' ''</@query@>''"
    using assms js_removeAll_append_absent [of "CHR ''<''" q "''@query@>''" "''</@query@>''"]
    by simp
  finally have r1: "js_removeAll ''<@query@>'' (''<@query@>'' @ q @ ''</@query@>'')
          = q @ ''</@query@>''"
    by (simp only: c1)
  have "js_removeAll ''</@query@>'' (q @ ''</@query@>'') = q @ js_removeAll ''</@query@>'' ''</@query@>''"
    using assms js_removeAll_append_absent [of "CHR ''<''" q "''/@query@>''" "''</@query@>''"]
    by simp
  then have r2: "js_removeAll ''</@query@>'' (q @ ''</@query@>'') = q"
    by (simp only: c2 append_Nil2)
  have ninc: "\<not> js_includes q ''<@query@>''"
    using assms not_includes_absent [of "CHR ''<''" q "''@query@>''"] by simp
  have "stripQueryTags (''<@query@>'' @ q @ ''</@query@>'')
          = stripQueryTags (js_removeAll ''</@query@>''
              (js_removeAll ''<@query@>'' (''<@query@>'' @ q @ ''</@query@>'')))"
    using inc by (subst stripQueryTags.simps) (simp only: if_True)
  also have "\<dots> = stripQueryTags q"
    by (simp only: r1 r2)
  also have "\<dots> = q"
    using ninc by (subst stripQueryTags.simps) (simp only: if_False)
  finally show ?thesis .
qed

text \<open>
  Claim C3, as amended. For the response \<open><@query@>SELECT 1</@query@>\<close>, whose
  closing tag is spelled the way the parser's pattern has it and which ends there, the
  parser extracts exactly \<open>SELECT 1\<close> and returns it once the validator has accepted
  it. The same holds for every non-empty statement without \<open><\<close> between the tags.
\<close>

theorem tagged_query_extracted:
  assumes "CHR ''<'' \<notin> set q" and "q \<noteq> []"
  shows "extractQuery (''<@query@>'' @ q @ ''</@query@>'') = q
     \<and> (validateSqlSyntax_vertex db 0 q = Inr \<lparr>isValid = True, error = None\<rparr>
          \<longrightarrow> parseAndValidateResponse db (''<@query@>'' @ q @ ''</@query@>'') = Inr q)"
proof -
  have "queryPairPresent (''<@query@>'' @ q @ ''</@query@>'')"
    unfolding queryPairPresent_def by (metis append_Nil append_Nil2)
  then have "matchQuery (''<@query@>'' @ q @ ''</@query@>'')"
    by (simp only: matchQuery_iff)
  with stripQueryTags_pair [OF assms(1)]
  have e: "extractQuery (''<@query@>'' @ q @ ''</@query@>'') = q"
    by (simp only: extractQuery_def if_True)
  have "parseAndValidateResponse db (''<@query@>'' @ q @ ''</@query@>'') = Inr q"
    if "validateSqlSyntax_vertex db 0 q = Inr \<lparr>isValid = True, error = None\<rparr>"
    using that assms(2) e by (simp add: parseAndValidateResponse_def Let_def)
  with e show ?thesis by blast
qed

theorem tagged_query_extracted_witness:
  "CHR ''<'' \<notin> set ''SELECT 1'' \<and> ''SELECT 1'' \<noteq> []
   \<and> extractQuery ''<@query@>SELECT 1</@query@>'' = ''SELECT 1''
   \<and> validateSqlSyntax_vertex exampleDb 0 ''SELECT 1'' = Inr \<lparr>isValid = True, error = None\<rparr>
   \<and> parseAndValidateResponse exampleDb ''<@query@>SELECT 1</@query@>'' = Inr ''SELECT 1''"
proof -
  have a: "CHR ''<'' \<notin> set ''SELECT 1''" by simp
  have b: "''SELECT 1'' \<noteq> []" by simp
  have v: "validateSqlSyntax_vertex exampleDb 0 ''SELECT 1'' = Inr \<lparr>isValid = True, error = None\<rparr>"
    unfolding exampleDb_def by code_simp
  from tagged_query_extracted [OF a b, of exampleDb] a b v show ?thesis by simp
qed

text \<open>
  The response of the claim spells the closing tag \<open><@/query@>\<close>. The parser's
  pattern knows \<open></@query@>\<close> only, finds no query and fails with what follows the
  explanation tag. With the closing tag spelled as in the pattern, the candidate is the
  whole response without its query tags: the explanation section stays in it.
\<close>

theorem tagged_roundtrip_counterexample:
  "extractQuery ''<@query@>SELECT 1<@/query@><@explanation@></@explanation@>'' = []
   \<and> parseAndValidateResponse exampleDb
        ''<@query@>SELECT 1<@/query@><@explanation@></@explanation@>'' =
        Inl (NoQueryProduced ''</@explanation@>'')
   \<and> parseAndValidateResponse exampleDb
        ''<@query@>SELECT 1</@query@><@explanation@></@explanation@>'' =
        Inr ''SELECT 1<@explanation@></@explanation@>''"
proof -
  have a: "extractQuery ''<@query@>SELECT 1<@/query@><@explanation@></@explanation@>'' = []"
    by code_simp
  have b: "parseAndValidateResponse exampleDb
        ''<@query@>SELECT 1<@/query@><@explanation@></@explanation@>'' =
        Inl (NoQueryProduced ''</@explanation@>'')"
    unfolding exampleDb_def by code_simp
  have c: "parseAndValidateResponse exampleDb
        ''<@query@>SELECT 1</@query@><@explanation@></@explanation@>'' =
        Inr ''SELECT 1<@explanation@></@explanation@>''"
    unfolding exampleDb_def by code_simp
  from a b c show ?thesis by blast
qed

section \<open>The fenced-response cleaner\<close>

lemma isWhiteSpace_nl: "isWhiteSpace (CHR 0x0A)"
  by (simp add: isWhiteSpace_def)

lemma js_trim_ws_Cons: "isWhiteSpace c \<Longrightarrow> js_trim (c # l) = js_trim l"
  by (simp add: js_trim_def)

lemma js_trim_ws_snoc:
  assumes "isWhiteSpace c"
  shows "js_trim (l @ [c]) = js_trim l"
proof (cases "\<forall>x \<in> set l. isWhiteSpace x")
  case True
  then have d1: "dropWhile isWhiteSpace l = []"
    by (simp add: dropWhile_eq_Nil_conv)
  from True assms have d2: "dropWhile isWhiteSpace (l @ [c]) = []"
    by (simp add: dropWhile_eq_Nil_conv)
  show ?thesis by (simp only: js_trim_def d1 d2)
next
  case False
  then have "dropWhile isWhiteSpace (l @ [c]) = dropWhile isWhiteSpace l @ [c]"
    by (auto simp: dropWhile_append1)
  with assms show ?thesis by (simp add: js_trim_def)
qed

lemma keepLine_ws_Cons: "isWhiteSpace c \<Longrightarrow> keepLine (c # l) = keepLine l"
  by (simp add: keepLine_def js_trim_ws_Cons)

lemma keepLine_ws_snoc: "isWhiteSpace c \<Longrightarrow> keepLine (l @ [c]) = keepLine l"
  by (simp add: keepLine_def js_trim_ws_snoc)

lemma not_keepLine_Nil: "\<not> keepLine []"
  by (simp add: keepLine_def js_trim_def)

lemma js_split_lines_nonempty: "js_split_lines s \<noteq> []"
  by (induction s) (auto split: list.splits)

lemma js_split_lines_snoc_nl: "js_split_lines (s @ [CHR 0x0A]) = js_split_lines s @ [[]]"
  by (induction s) (auto split: list.splits simp: js_split_lines_nonempty)

lemma js_split_lines_snoc:
  "c \<noteq> CHR 0x0A
   \<Longrightarrow> js_split_lines (s @ [c]) = butlast (js_split_lines s) @ [last (js_split_lines s) @ [c]]"
  by (induction s) (auto split: list.splits simp: js_split_lines_nonempty)

lemma js_split_lines_no_nl: "l \<in> set (js_split_lines s) \<Longrightarrow> CHR 0x0A \<notin> set l"
  by (induction s arbitrary: l) (auto split: list.splits if_splits)

lemma js_split_lines_single: "CHR 0x0A \<notin> set l \<Longrightarrow> js_split_lines l = [l]"
  by (induction l) auto

lemma js_split_lines_append:
  "CHR 0x0A \<notin> set l \<Longrightarrow> js_split_lines (l @ CHR 0x0A # r) = l # js_split_lines r"
  by (induction l) auto

lemma js_split_join:
  "ls \<noteq> [] \<Longrightarrow> \<forall>l \<in> set ls. CHR 0x0A \<notin> set l
   \<Longrightarrow> js_split_lines (js_join [CHR 0x0A] ls) = ls"
proof (induction ls)
  case Nil
  then show ?case by simp
next
  case (Cons x ls)
  show ?case
  proof (cases ls)
    case Nil
    with Cons.prems show ?thesis by (simp add: js_split_lines_single)
  next
    case (Cons y ys)
    with Cons.IH Cons.prems have "js_split_lines (js_join [CHR 0x0A] (y # ys)) = y # ys"
      by simp
    with Cons Cons.prems show ?thesis by (simp add: js_split_lines_append)
  qed
qed

lemma js_join_split: "js_join [CHR 0x0A] (js_split_lines s) = s"
proof (induction s)
  case Nil
  show ?case by simp
next
  case (Cons c cs)
  obtain l ls where sp: "js_split_lines cs = l # ls"
    using js_split_lines_nonempty [of cs] by (cases "js_split_lines cs") auto
  show ?case
  proof (cases "c = CHR 0x0A")
    case True
    with sp Cons.IH show ?thesis by simp
  next
    case False
    with sp Cons.IH show ?thesis by (cases ls) auto
  qed
qed

lemma lines_kept_ltrim:
  "\<forall>l \<in> set (js_split_lines s). keepLine l
   \<Longrightarrow> \<forall>l \<in> set (js_split_lines (dropWhile isWhiteSpace s)). keepLine l"
proof (induction s)
  case Nil
  then show ?case by simp
next
  case (Cons c cs)
  show ?case
  proof (cases "isWhiteSpace c")
    case False
    with Cons.prems show ?thesis by simp
  next
    case True
    obtain l ls where sp: "js_split_lines cs = l # ls"
      using js_split_lines_nonempty [of cs] by (cases "js_split_lines cs") auto
    have "c \<noteq> CHR 0x0A"
    proof
      assume "c = CHR 0x0A"
      with Cons.prems have "keepLine []" by simp
      with not_keepLine_Nil show False by simp
    qed
    with Cons.prems sp have "keepLine (c # l)" and rest: "\<forall>l \<in> set ls. keepLine l"
      by simp_all
    with True have "keepLine l" by (simp add: keepLine_ws_Cons)
    with rest sp have "\<forall>l \<in> set (js_split_lines cs). keepLine l" by simp
    with Cons.IH True show ?thesis by simp
  qed
qed

lemma lines_kept_rtrim:
  "\<forall>l \<in> set (js_split_lines s). keepLine l
   \<Longrightarrow> \<forall>l \<in> set (js_split_lines (rev (dropWhile isWhiteSpace (rev s)))). keepLine l"
proof (induction s rule: rev_induct)
  case Nil
  then show ?case by simp
next
  case (snoc c cs)
  show ?case
  proof (cases "isWhiteSpace c")
    case False
    with snoc.prems show ?thesis by simp
  next
    case True
    have nn: "c \<noteq> CHR 0x0A"
    proof
      assume "c = CHR 0x0A"
      with snoc.prems have "keepLine []" by (simp add: js_split_lines_snoc_nl)
      with not_keepLine_Nil show False by simp
    qed
    have ne: "js_split_lines cs \<noteq> []" by (rule js_split_lines_nonempty)
    from nn snoc.prems have a: "\<forall>l \<in> set (butlast (js_split_lines cs)). keepLine l"
      and b: "keepLine (last (js_split_lines cs) @ [c])"
      by (simp_all add: js_split_lines_snoc)
    from b True have "keepLine (last (js_split_lines cs))" by (simp add: keepLine_ws_snoc)
    with a have "\<forall>l \<in> set (butlast (js_split_lines cs) @ [last (js_split_lines cs)]). keepLine l"
      by simp
    with ne have "\<forall>l \<in> set (js_split_lines cs). keepLine l"
      by simp
    with snoc.IH True show ?thesis by simp
  qed
qed

lemma lines_kept_trim:
  "\<forall>l \<in> set (js_split_lines s). keepLine l
   \<Longrightarrow> \<forall>l \<in> set (js_split_lines (js_trim s)). keepLine l"
  unfolding js_trim_def by (intro lines_kept_rtrim lines_kept_ltrim)

lemma cleanSqlResponse_lines:
  assumes "cleanSqlResponse response \<noteq> []"
  shows "\<forall>l \<in> set (js_split_lines (cleanSqlResponse response)). keepLine l"
proof -
  define sqlLines where
    "sqlLines = filter keepLine (js_split_lines (js_trim (stripFences (js_trim response))))"
  have c: "cleanSqlResponse response = js_trim (js_join [CHR 0x0A] sqlLines)"
    by (simp add: cleanSqlResponse_def sqlLines_def Let_def)
  have ne: "sqlLines \<noteq> []"
  proof
    assume "sqlLines = []"
    with c have "cleanSqlResponse response = []" by (simp add: js_trim_def)
    with assms show False by simp
  qed
  have nonl: "\<forall>l \<in> set sqlLines. CHR 0x0A \<notin> set l"
    unfolding sqlLines_def using js_split_lines_no_nl by auto
  have kept: "\<forall>l \<in> set sqlLines. keepLine l"
    unfolding sqlLines_def by simp
  from ne nonl have "js_split_lines (js_join [CHR 0x0A] sqlLines) = sqlLines"
    by (rule js_split_join)
  with kept have "\<forall>l \<in> set (js_split_lines (js_join [CHR 0x0A] sqlLines)). keepLine l"
    by simp
  then have "\<forall>l \<in> set (js_split_lines (js_trim (js_join [CHR 0x0A] sqlLines))). keepLine l"
    by (rule lines_kept_trim)
  with c show ?thesis by simp
qed

lemma js_trim_id:
  assumes "s \<noteq> []" and "\<not> isWhiteSpace (hd s)" and "\<not> isWhiteSpace (last s)"
  shows "js_trim s = s"
proof -
  from assms(1,2) have d1: "dropWhile isWhiteSpace s = s"
    by (cases s) simp_all
  from assms(1,3) have d2: "dropWhile isWhiteSpace (rev s) = rev s"
    by (cases "rev s") (simp_all add: last_rev [symmetric] del: last_rev)
  show ?thesis by (simp only: js_trim_def d1 d2 rev_rev_ident)
qed

lemma stripFences_fenced:
  assumes "\<not> prefix ''```'' body"
  shows "stripFences (''```sql'' @ [CHR 0x0A] @ body @ [CHR 0x0A] @ ''```'') = body"
proof -
  have l: "toLowerCase (take 6 (''```sql'' @ [CHR 0x0A] @ body @ [CHR 0x0A] @ ''```'')) = ''```sql''"
    by (simp add: toLowerCase_def toLowerChar_def)
  have a: "removeLeadingSqlFence (''```sql'' @ [CHR 0x0A] @ body @ [CHR 0x0A] @ ''```'')
             = body @ [CHR 0x0A] @ ''```''"
    unfolding removeLeadingSqlFence_def by (simp only: l if_True) (simp add: dropOptionalNewline_def)
  have np: "\<not> prefix ''```'' (body @ [CHR 0x0A] @ ''```'')"
  proof
    assume "prefix ''```'' (body @ [CHR 0x0A] @ ''```'')"
    then have "prefix ''```'' body
        \<or> (\<exists>us. ''```'' = body @ us \<and> prefix us ([CHR 0x0A] @ ''```''))"
      by (simp only: prefix_append)
    then show False
    proof (elim disjE exE conjE)
      assume "prefix ''```'' body"
      with assms show False by simp
    next
      fix us
      assume d: "''```'' = body @ us" and p: "prefix us ([CHR 0x0A] @ ''```'')"
      show False
      proof (cases us)
        case Nil
        with d have "body = ''```''" by simp
        with assms show False by simp
      next
        case (Cons u us')
        with p have "u = CHR 0x0A" by simp
        with Cons have "CHR 0x0A \<in> set (body @ us)" by simp
        with d have "CHR 0x0A \<in> set ''```''" by (simp only:)
        then show False by simp
      qed
    qed
  qed
  then have b: "removeLeadingFence (body @ [CHR 0x0A] @ ''```'') = body @ [CHR 0x0A] @ ''```''"
    by (simp only: removeLeadingFence_def js_startsWith_prefix if_False)
  have e: "js_endsWith (body @ [CHR 0x0A] @ ''```'') ''```''"
    by (simp add: js_endsWith_def js_startsWith_prefix)
  have c: "removeTrailingFence (body @ [CHR 0x0A] @ ''```'') = body"
    unfolding removeTrailingFence_def by (simp only: e if_True) (simp add: Let_def)
  show ?thesis by (simp only: stripFences_def a b c)
qed

lemma cleanSqlResponse_fenced:
  assumes "js_trim body = body" and "\<not> prefix ''```'' body"
      and "\<forall>l \<in> set (js_split_lines body). keepLine l"
  shows "cleanSqlResponse (''```sql'' @ [CHR 0x0A] @ body @ [CHR 0x0A] @ ''```'') = body"
proof -
  let ?r = "''```sql'' @ [CHR 0x0A] @ body @ [CHR 0x0A] @ ''```''"
  have "\<not> isWhiteSpace (CHR ''`'')" by (simp add: isWhiteSpace_def)
  then have t: "js_trim ?r = ?r"
    by (intro js_trim_id) simp_all
  from assms(3) have f: "filter keepLine (js_split_lines body) = js_split_lines body"
    by simp
  show ?thesis
    unfolding cleanSqlResponse_def Let_def
    by (simp only: t stripFences_fenced [OF assms(2)] assms(1) f js_join_split)
qed

lemma cleanSqlResponse_all_dropped:
  assumes "\<forall>l \<in> set (js_split_lines (js_trim (stripFences (js_trim response)))). \<not> keepLine l"
  shows "cleanSqlResponse response = []"
proof -
  from assms have "filter keepLine (js_split_lines (js_trim (stripFences (js_trim response)))) = []"
    by simp
  then show ?thesis
    by (simp add: cleanSqlResponse_def Let_def js_trim_def)
qed

lemma forEachRow_failure:
  "forEachRow tables rows = Inl e \<Longrightarrow> \<exists>m. e = TypeError m"
proof (induction rows arbitrary: tables)
  case Nil
  then show ?case by simp
next
  case (Cons r rs)
  show ?case
  proof (cases "addRow tables r")
    case (Inl e')
    with Cons.prems have "e = e'" by simp
    with Inl show ?thesis
      by (auto simp: addRow_def Let_def split: property.splits)
  next
    case (Inr t')
    with Cons.prems have "forEachRow t' rs = Inl e" by simp
    with Cons.IH show ?thesis by blast
  qed
qed

lemma getTableSchema_failure:
  "getTableSchema db = Inl e \<Longrightarrow> e \<noteq> MalformedResponse"
  by (auto simp: getTableSchema_def split: option.splits sum.splits dest: forEachRow_failure)

lemma validate_AI_failure: "validateSqlSyntax_AI db n s = Inl e \<Longrightarrow> e \<noteq> MalformedResponse"
  by (auto simp: validateSqlSyntax_AI_def explainCheck_def split: option.splits)

lemma AI_never_malformed: "generateSqlFromQuestion_AI db model question \<noteq> Inl MalformedResponse"
  by (auto simp: generateSqlFromQuestion_AI_def Let_def
      split: sum.splits dest: getTableSchema_failure validate_AI_failure)

lemma AI_empty_candidate:
  assumes "cleanSqlResponse response = []" and "getTableSchema db = Inr tables"
      and "model (buildPrompt question tables) = Inr response"
      and "connect db 1 = None" and "query db ''EXPLAIN '' = Some m"
  shows "generateSqlFromQuestion_AI db model question = Inl (ValidationFailed m)"
proof -
  have k: "foundForbiddenKeyword_AI [] = None" by code_simp
  from assms(4,5) have "validateSqlSyntax_AI db 1 [] = Inr \<lparr>isValid = False, error = Some m\<rparr>"
    by (simp add: validateSqlSyntax_AI_def k explainCheck_def)
  with assms(1,2,3) show ?thesis
    by (simp add: generateSqlFromQuestion_AI_def)
qed

lemma js_trim_ends: "js_trim s = trimEnd (trimStart s)"
  by (simp add: js_trim_def trimEnd_def trimStart_def)

lemma nonws_kept: "x \<in> set l \<Longrightarrow> \<not> isWhiteSpace x \<Longrightarrow> x \<in> set (dropWhile isWhiteSpace l)"
  by (induction l) auto

lemma js_trim_nonempty_nonws: "js_trim l \<noteq> [] \<Longrightarrow> \<exists>x \<in> set l. \<not> isWhiteSpace x"
proof (rule ccontr)
  assume ne: "js_trim l \<noteq> []" and "\<not> (\<exists>x \<in> set l. \<not> isWhiteSpace x)"
  then have "\<forall>x \<in> set l. isWhiteSpace x" by blast
  then have d: "dropWhile isWhiteSpace l = []"
    by (simp only: dropWhile_eq_Nil_conv)
  have "js_trim l = []"
    by (simp only: js_trim_def d rev.simps dropWhile.simps)
  with ne show False by simp
qed

lemma keepLine_nonws: "keepLine l \<Longrightarrow> \<exists>x \<in> set l. \<not> isWhiteSpace x"
  by (rule js_trim_nonempty_nonws) (simp add: keepLine_def Let_def)

lemma trimStart_append:
  "\<exists>x \<in> set l. \<not> isWhiteSpace x \<Longrightarrow> trimStart (l @ r) = trimStart l @ r"
  by (auto simp: trimStart_def dropWhile_append1)

lemma trimEnd_append:
  "\<exists>x \<in> set l. \<not> isWhiteSpace x \<Longrightarrow> trimEnd (r @ l) = r @ trimEnd l"
  by (auto simp: trimEnd_def dropWhile_append1)

lemma trimStart_nonws:
  "\<exists>x \<in> set l. \<not> isWhiteSpace x \<Longrightarrow> \<exists>x \<in> set (trimStart l). \<not> isWhiteSpace x"
  unfolding trimStart_def using nonws_kept by blast

lemma js_join_Cons: "ys \<noteq> [] \<Longrightarrow> js_join sep (x # ys) = x @ sep @ js_join sep ys"
  by (cases ys) simp_all

lemma js_join_snoc: "xs \<noteq> [] \<Longrightarrow> js_join sep (xs @ [l]) = js_join sep xs @ sep @ l"
proof (induction xs)
  case Nil
  then show ?case by simp
next
  case (Cons x xs)
  show ?case
  proof (cases xs)
    case Nil
    then show ?thesis by simp
  next
    case (Cons y ys)
    with Cons.IH have "js_join sep (xs @ [l]) = js_join sep xs @ sep @ l" by simp
    with Cons show ?thesis by simp
  qed
qed

lemma js_join_nonempty: "x \<noteq> [] \<Longrightarrow> js_join sep (x # xs) \<noteq> []"
  by (cases xs) simp_all

lemma trim_join_lines:
  assumes "\<forall>l \<in> set ks. keepLine l"
  shows "js_trim (js_join [CHR 0x0A] ks) = js_join [CHR 0x0A] (outerTrimmed ks)"
proof (cases ks)
  case Nil
  then show ?thesis by (simp add: js_trim_def)
next
  case (Cons l R)
  show ?thesis
  proof (cases R)
    case Nil
    with Cons show ?thesis by simp
  next
    case Cons2: (Cons m ls)
    let ?nl = "[CHR 0x0A]"
    let ?B = "butlast R"
    let ?z = "last R"
    from Cons2 have Rne: "R \<noteq> []" by simp
    from assms Cons have kl: "keepLine l" by simp
    from assms Cons Rne have kz: "keepLine ?z" by simp
    from kl have nl: "\<exists>x \<in> set l. \<not> isWhiteSpace x" by (rule keepLine_nonws)
    from kz have nz: "\<exists>x \<in> set ?z. \<not> isWhiteSpace x" by (rule keepLine_nonws)
    define P where "P = (if ?B = [] then [] else js_join ?nl ?B @ ?nl)"
    have joinR: "js_join ?nl (?B @ [x]) = P @ x" for x
      unfolding P_def by (cases "?B = []") (simp_all add: js_join_snoc)
    from Rne have "R = ?B @ [?z]" by simp
    then have jr: "js_join ?nl R = P @ ?z" using joinR [of ?z] by simp
    have "js_join ?nl ks = l @ ?nl @ js_join ?nl R"
      using Cons Rne by (simp add: js_join_Cons)
    then have whole: "js_join ?nl ks = l @ (?nl @ P @ ?z)" using jr by simp
    have "trimStart (js_join ?nl ks) = trimStart l @ (?nl @ P @ ?z)"
      unfolding whole using nl by (rule trimStart_append)
    then have "trimStart (js_join ?nl ks) = (trimStart l @ ?nl @ P) @ ?z" by simp
    then have "trimEnd (trimStart (js_join ?nl ks)) = (trimStart l @ ?nl @ P) @ trimEnd ?z"
      using trimEnd_append [OF nz, of "trimStart l @ ?nl @ P"] by simp
    then have lhs: "js_trim (js_join ?nl ks) = trimStart l @ ?nl @ P @ trimEnd ?z"
      by (simp add: js_trim_ends)
    have "outerTrimmed ks = trimStart l # (?B @ [trimEnd ?z])"
      using Cons Cons2 by simp
    then have "js_join ?nl (outerTrimmed ks) = trimStart l @ ?nl @ js_join ?nl (?B @ [trimEnd ?z])"
      by (simp add: js_join_Cons)
    then have rhs: "js_join ?nl (outerTrimmed ks) = trimStart l @ ?nl @ P @ trimEnd ?z"
      using joinR [of "trimEnd ?z"] by simp
    from lhs rhs show ?thesis by simp
  qed
qed

lemma cleanSqlResponse_kept:
  "cleanSqlResponse response = js_join [CHR 0x0A] (outerTrimmed (keptLines response))"
proof -
  have "cleanSqlResponse response = js_trim (js_join [CHR 0x0A] (keptLines response))"
    by (simp add: cleanSqlResponse_def keptLines_def Let_def)
  moreover have "\<forall>l \<in> set (keptLines response). keepLine l"
    by (simp add: keptLines_def)
  ultimately show ?thesis by (simp add: trim_join_lines)
qed

lemma outerTrimmed_no_nl:
  assumes "\<forall>l \<in> set ks. CHR 0x0A \<notin> set l"
  shows "\<forall>l \<in> set (outerTrimmed ks). CHR 0x0A \<notin> set l"
proof (cases ks rule: outerTrimmed.cases)
  case 1
  then show ?thesis by simp
next
  case (2 l)
  with assms have "CHR 0x0A \<notin> set l" by simp
  then have "CHR 0x0A \<notin> set (js_trim l)"
    unfolding js_trim_def by (metis set_dropWhileD set_rev)
  with 2 show ?thesis by simp
next
  case (3 l m ls)
  from assms 3 have a: "CHR 0x0A \<notin> set l" by simp
  then have a': "CHR 0x0A \<notin> set (trimStart l)"
    unfolding trimStart_def by (metis set_dropWhileD)
  from assms 3 have b: "\<forall>x \<in> set (m # ls). CHR 0x0A \<notin> set x" by simp
  then have b': "\<forall>x \<in> set (butlast (m # ls)). CHR 0x0A \<notin> set x"
    by (metis in_set_butlastD)
  from b have "CHR 0x0A \<notin> set (last (m # ls))" by (metis last_in_set list.distinct(1))
  then have c': "CHR 0x0A \<notin> set (trimEnd (last (m # ls)))"
    unfolding trimEnd_def by (metis set_dropWhileD set_rev)
  from a' b' c' 3 show ?thesis by auto
qed

lemma outerTrimmed_nonempty: "ks \<noteq> [] \<Longrightarrow> outerTrimmed ks \<noteq> []"
  by (cases ks rule: outerTrimmed.cases) simp_all

lemma cleanSqlResponse_split:
  assumes "keptLines response \<noteq> []"
  shows "js_split_lines (cleanSqlResponse response) = outerTrimmed (keptLines response)"
proof -
  have "\<forall>l \<in> set (keptLines response). CHR 0x0A \<notin> set l"
    unfolding keptLines_def using js_split_lines_no_nl by auto
  then have "\<forall>l \<in> set (outerTrimmed (keptLines response)). CHR 0x0A \<notin> set l"
    by (rule outerTrimmed_no_nl)
  with outerTrimmed_nonempty [OF assms]
  have "js_split_lines (js_join [CHR 0x0A] (outerTrimmed (keptLines response)))
          = outerTrimmed (keptLines response)"
    by (rule js_split_join)
  then show ?thesis by (simp only: cleanSqlResponse_kept)
qed

lemma cleanSqlResponse_empty_iff:
  "cleanSqlResponse response = [] \<longleftrightarrow> keptLines response = []"
proof
  assume "keptLines response = []"
  then show "cleanSqlResponse response = []" by (simp add: cleanSqlResponse_kept)
next
  assume e: "cleanSqlResponse response = []"
  show "keptLines response = []"
  proof (rule ccontr)
    assume ne: "keptLines response \<noteq> []"
    then obtain l R where k: "keptLines response = l # R" by (cases "keptLines response") auto
    have "l \<in> set (keptLines response)" using k by simp
    then have "keepLine l" unfolding keptLines_def by simp
    then have t: "js_trim l \<noteq> []" and n: "\<exists>x \<in> set l. \<not> isWhiteSpace x"
      by (simp_all add: keepLine_def Let_def keepLine_nonws)
    from n have s: "trimStart l \<noteq> []"
      using trimStart_nonws by fastforce
    have "\<exists>h T. outerTrimmed (l # R) = h # T \<and> h \<noteq> []"
      using t s by (cases R) simp_all
    then obtain h T where "outerTrimmed (keptLines response) = h # T" and "h \<noteq> []"
      using k by auto
    then have "cleanSqlResponse response \<noteq> []"
      by (simp add: cleanSqlResponse_kept js_join_nonempty)
    with e show False by simp
  qed
qed

lemma js_endsWith_suffix: "js_endsWith s p \<longleftrightarrow> suffix p s"
  by (simp add: js_endsWith_def js_startsWith_prefix suffix_to_prefix)

lemma length_toLowerCase: "length (toLowerCase s) = length s"
  by (simp add: toLowerCase_def)

lemma dropOptionalNewline_nl: "dropOptionalNewline (CHR 0x0A # rest) = rest"
  by (simp add: dropOptionalNewline_def)

lemma dropOptionalNewline_other: "\<not> prefix [CHR 0x0A] s \<Longrightarrow> dropOptionalNewline s = s"
  by (cases s) (simp_all add: dropOptionalNewline_def)

lemma removeLeadingSqlFence_present:
  "length m = 6 \<Longrightarrow> toLowerCase m = ''```sql''
   \<Longrightarrow> removeLeadingSqlFence (m @ rest) = dropOptionalNewline rest"
  by (simp add: removeLeadingSqlFence_def)

lemma removeLeadingSqlFence_absent:
  assumes "\<not> (\<exists>m rest. s = m @ rest \<and> length m = 6 \<and> toLowerCase m = ''```sql'')"
  shows "removeLeadingSqlFence s = s"
proof (cases "toLowerCase (take 6 s) = ''```sql''")
  case False
  then show ?thesis by (simp add: removeLeadingSqlFence_def)
next
  case True
  then have "length (toLowerCase (take 6 s)) = 6" by simp
  then have "length (take 6 s) = 6" by (simp only: length_toLowerCase)
  moreover have "s = take 6 s @ drop 6 s" by simp
  ultimately have "\<exists>m rest. s = m @ rest \<and> length m = 6 \<and> toLowerCase m = ''```sql''"
    using True by blast
  with assms show ?thesis by blast
qed

lemma removeLeadingFence_present:
  "removeLeadingFence (''```'' @ rest) = dropOptionalNewline rest"
  by (simp add: removeLeadingFence_def)

lemma removeLeadingFence_absent: "\<not> prefix ''```'' s \<Longrightarrow> removeLeadingFence s = s"
  by (simp add: removeLeadingFence_def js_startsWith_prefix)

lemma removeTrailingFence_nl: "removeTrailingFence (rest @ [CHR 0x0A] @ ''```'') = rest"
proof -
  have e: "js_endsWith (rest @ [CHR 0x0A] @ ''```'') ''```''"
    by (simp add: js_endsWith_suffix suffix_def)
  show ?thesis
    unfolding removeTrailingFence_def by (simp only: e if_True) (simp add: Let_def)
qed

lemma removeTrailingFence_plain:
  assumes "\<not> suffix [CHR 0x0A] rest"
  shows "removeTrailingFence (rest @ ''```'') = rest"
proof -
  have e: "js_endsWith (rest @ ''```'') ''```''"
    by (simp add: js_endsWith_suffix suffix_def)
  from assms have "rest = [] \<or> last rest \<noteq> CHR 0x0A"
    by (cases rest rule: rev_cases) (auto simp: suffix_def)
  then show ?thesis
    unfolding removeTrailingFence_def by (simp only: e if_True) (auto simp: Let_def)
qed

lemma removeTrailingFence_absent: "\<not> suffix ''```'' s \<Longrightarrow> removeTrailingFence s = s"
  by (simp add: removeTrailingFence_def js_endsWith_suffix)

lemma AI_outcome:
  assumes "getTableSchema db = Inr tables"
      and "model (buildPrompt question tables) = Inr response"
  shows "generateSqlFromQuestion_AI db model question =
           (case validateSqlSyntax_AI db 1 (cleanSqlResponse response) of
              Inl e \<Rightarrow> Inl e
            | Inr vr \<Rightarrow>
                if isValid vr then Inr (cleanSqlResponse response)
                else Inl (ValidationFailed (case error vr of
                                              Some m \<Rightarrow> m | None \<Rightarrow> ''undefined'')))"
  using assms by (simp add: generateSqlFromQuestion_AI_def Let_def split: sum.splits)

text \<open>
  Claim C5, as amended. \<open>cleanSqlResponse\<close> deletes, at the start of the trimmed
  response, a fence marker with the tag \<open>sql\<close> in any letter case and then a bare
  fence marker, and at its end a fence marker, each only if present and each with the
  line feed next to it. Of the lines of what is left, trimmed, it keeps those that
  are not blank, are no \<open>--\<close> comment and do not begin with \<open>here\<close> or
  \<open>this query\<close> in any letter case, and returns them in order, joined by line
  feeds, the first without white space at its start and the last without white space
  at its end. The result is empty exactly when no line is kept. The Gemini
  orchestrator has no check for the empty text: once the schema is read and the model
  has answered, its outcome is the validator's outcome on the cleaned text. With a
  client handed out and a database that refuses to explain the empty statement, a
  response of prose and comments ends in \<open>ValidationFailed\<close> with the database's
  message. \<open>MalformedResponse\<close> is never the outcome of this orchestrator.
\<close>

theorem fenced_response_cleaning:
  "(length marker = 6 \<and> toLowerCase marker = ''```sql''
      \<longrightarrow> removeLeadingSqlFence (marker @ rest) = dropOptionalNewline rest)
   \<and> (\<not> (\<exists>mk tl. s = mk @ tl \<and> length mk = 6 \<and> toLowerCase mk = ''```sql'')
      \<longrightarrow> removeLeadingSqlFence s = s)
   \<and> removeLeadingFence (''```'' @ rest) = dropOptionalNewline rest
   \<and> (\<not> prefix ''```'' s \<longrightarrow> removeLeadingFence s = s)
   \<and> removeTrailingFence (rest @ [CHR 0x0A] @ ''```'') = rest
   \<and> (\<not> suffix [CHR 0x0A] rest \<longrightarrow> removeTrailingFence (rest @ ''```'') = rest)
   \<and> (\<not> suffix ''```'' s \<longrightarrow> removeTrailingFence s = s)
   \<and> dropOptionalNewline (CHR 0x0A # rest) = rest
   \<and> (\<not> prefix [CHR 0x0A] s \<longrightarrow> dropOptionalNewline s = s)
   \<and> stripFences s = removeTrailingFence (removeLeadingFence (removeLeadingSqlFence s))
   \<and> keptLines response =
        filter keepLine (js_split_lines (js_trim (stripFences (js_trim response))))
   \<and> cleanSqlResponse response = js_join [CHR 0x0A] (outerTrimmed (keptLines response))
   \<and> (keptLines response \<noteq> []
      \<longrightarrow> js_split_lines (cleanSqlResponse response) = outerTrimmed (keptLines response))
   \<and> (cleanSqlResponse response \<noteq> []
      \<longrightarrow> (\<forall>line \<in> set (js_split_lines (cleanSqlResponse response)). keepLine line))
   \<and> (cleanSqlResponse response = [] \<longleftrightarrow> keptLines response = [])
   \<and> (js_trim body = body \<and> \<not> prefix ''```'' body
       \<and> (\<forall>line \<in> set (js_split_lines body). keepLine line)
      \<longrightarrow> cleanSqlResponse (''```sql'' @ [CHR 0x0A] @ body @ [CHR 0x0A] @ ''```'') = body)
   \<and> (getTableSchema db = Inr tables \<and> model (buildPrompt question tables) = Inr response
      \<longrightarrow> generateSqlFromQuestion_AI db model question =
           (case validateSqlSyntax_AI db 1 (cleanSqlResponse response) of
              Inl e \<Rightarrow> Inl e
            | Inr vr \<Rightarrow>
                if isValid vr then Inr (cleanSqlResponse response)
                else Inl (ValidationFailed (case error vr of
                                              Some m \<Rightarrow> m | None \<Rightarrow> ''undefined''))))
   \<and> (cleanSqlResponse response = [] \<and> getTableSchema db = Inr tables
       \<and> model (buildPrompt question tables) = Inr response
       \<and> connect db 1 = None \<and> query db ''EXPLAIN '' = Some msg
      \<longrightarrow> generateSqlFromQuestion_AI db model question = Inl (ValidationFailed msg))
   \<and> generateSqlFromQuestion_AI db model question \<noteq> Inl MalformedResponse"
proof -
  have c1: "length marker = 6 \<and> toLowerCase marker = ''```sql''
      \<longrightarrow> removeLeadingSqlFence (marker @ rest) = dropOptionalNewline rest"
    using removeLeadingSqlFence_present by blast
  have c2: "\<not> (\<exists>mk tl. s = mk @ tl \<and> length mk = 6 \<and> toLowerCase mk = ''```sql'')
      \<longrightarrow> removeLeadingSqlFence s = s"
    using removeLeadingSqlFence_absent by blast
  have c4: "\<not> prefix ''```'' s \<longrightarrow> removeLeadingFence s = s"
    using removeLeadingFence_absent by blast
  have c6: "\<not> suffix [CHR 0x0A] rest \<longrightarrow> removeTrailingFence (rest @ ''```'') = rest"
    using removeTrailingFence_plain by blast
  have c7: "\<not> suffix ''```'' s \<longrightarrow> removeTrailingFence s = s"
    using removeTrailingFence_absent by blast
  have c9: "\<not> prefix [CHR 0x0A] s \<longrightarrow> dropOptionalNewline s = s"
    using dropOptionalNewline_other by blast
  have c13: "keptLines response \<noteq> []
      \<longrightarrow> js_split_lines (cleanSqlResponse response) = outerTrimmed (keptLines response)"
    using cleanSqlResponse_split by blast
  have c14: "cleanSqlResponse response \<noteq> []
      \<longrightarrow> (\<forall>line \<in> set (js_split_lines (cleanSqlResponse response)). keepLine line)"
    using cleanSqlResponse_lines by blast
  have c16: "js_trim body = body \<and> \<not> prefix ''```'' body
       \<and> (\<forall>line \<in> set (js_split_lines body). keepLine line)
      \<longrightarrow> cleanSqlResponse (''```sql'' @ [CHR 0x0A] @ body @ [CHR 0x0A] @ ''```'') = body"
    using cleanSqlResponse_fenced [of body] by blast
  have c17: "getTableSchema db = Inr tables \<and> model (buildPrompt question tables) = Inr response
      \<longrightarrow> generateSqlFromQuestion_AI db model question =
           (case validateSqlSyntax_AI db 1 (cleanSqlResponse response) of
              Inl e \<Rightarrow> Inl e
            | Inr vr \<Rightarrow>
                if isValid vr then Inr (cleanSqlResponse response)
                else Inl (ValidationFailed (case error vr of
                                              Some m \<Rightarrow> m | None \<Rightarrow> ''undefined'')))"
    using AI_outcome [of db tables model question response] by blast
  have c18: "cleanSqlResponse response = [] \<and> getTableSchema db = Inr tables
       \<and> model (buildPrompt question tables) = Inr response
       \<and> connect db 1 = None \<and> query db ''EXPLAIN '' = Some msg
      \<longrightarrow> generateSqlFromQuestion_AI db model question = Inl (ValidationFailed msg)"
    using AI_empty_candidate [of response db tables model question msg] by blast
  show ?thesis
    by (intro conjI c1 c2 removeLeadingFence_present c4 removeTrailingFence_nl c6 c7
        dropOptionalNewline_nl c9 stripFences_def keptLines_def cleanSqlResponse_kept c13 c14
        cleanSqlResponse_empty_iff c16 c17 c18 AI_never_malformed)
qed

theorem fenced_response_cleaning_witness:
  "stripFences (''```sql'' @ [CHR 0x0A] @ ''```'' @ [CHR 0x0A] @ ''SELECT 1'' @ [CHR 0x0A] @ ''```'')
     = ''SELECT 1''
   \<and> cleanSqlResponse (''-- count the rows'' @ [CHR 0x0A] @ ''  SELECT 1  '') = ''SELECT 1''
   \<and> cleanSqlResponse (''```sql'' @ [CHR 0x0A] @ ''SELECT 1;'' @ [CHR 0x0A] @ ''```'') = ''SELECT 1;''
   \<and> cleanSqlResponse (''Here is the query:'' @ [CHR 0x0A] @ ''-- it counts the rows'') = []
   \<and> generateSqlFromQuestion_AI busyDb proseModel ''Count all products'' =
        Inl (ValidationFailed ''syntax error at end of input'')"
proof -
  let ?prose = "''Here is the query:'' @ [CHR 0x0A] @ ''-- it counts the rows''"
  let ?mixed = "''-- count the rows'' @ [CHR 0x0A] @ ''  SELECT 1  ''"
  let ?two = "''```sql'' @ [CHR 0x0A] @ ''```'' @ [CHR 0x0A] @ ''SELECT 1'' @ [CHR 0x0A] @ ''```''"
  let ?schema = "[\<lparr>name = ''products'',
                   columns = [\<lparr>Column.name = ''id'', type = ''integer'', nullable = False\<rparr>]\<rparr>]"
  note T = fenced_response_cleaning
  \<comment> \<open>two leading markers and a trailing one\<close>
  have l6: "length ''```sql'' = 6 \<and> toLowerCase ''```sql'' = ''```sql''" by code_simp
  from l6 T [where marker = "''```sql''"
      and rest = "[CHR 0x0A] @ ''```'' @ [CHR 0x0A] @ ''SELECT 1'' @ [CHR 0x0A] @ ''```''"
      and s = ?two and response = ?two and body = "''SELECT 1''" and db = busyDb
      and tables = ?schema and model = proseModel and question = "''Count all products''"
      and msg = "''syntax error at end of input''"]
  have a1: "removeLeadingSqlFence ?two
              = dropOptionalNewline ([CHR 0x0A] @ ''```'' @ [CHR 0x0A] @ ''SELECT 1'' @ [CHR 0x0A] @ ''```'')"
    and a0: "stripFences ?two = removeTrailingFence (removeLeadingFence (removeLeadingSqlFence ?two))"
    by simp_all
  from T [where marker = "''```sql''"
      and rest = "''```'' @ [CHR 0x0A] @ ''SELECT 1'' @ [CHR 0x0A] @ ''```''"
      and s = ?two and response = ?two and body = "''SELECT 1''" and db = busyDb
      and tables = ?schema and model = proseModel and question = "''Count all products''"
      and msg = "''syntax error at end of input''"]
  have a2: "dropOptionalNewline ([CHR 0x0A] @ ''```'' @ [CHR 0x0A] @ ''SELECT 1'' @ [CHR 0x0A] @ ''```'')
              = ''```'' @ [CHR 0x0A] @ ''SELECT 1'' @ [CHR 0x0A] @ ''```''"
    by simp
  from T [where marker = "''```sql''"
      and rest = "[CHR 0x0A] @ ''SELECT 1'' @ [CHR 0x0A] @ ''```''"
      and s = ?two and response = ?two and body = "''SELECT 1''" and db = busyDb
      and tables = ?schema and model = proseModel and question = "''Count all products''"
      and msg = "''syntax error at end of input''"]
  have a3: "removeLeadingFence (''```'' @ [CHR 0x0A] @ ''SELECT 1'' @ [CHR 0x0A] @ ''```'')
              = dropOptionalNewline ([CHR 0x0A] @ ''SELECT 1'' @ [CHR 0x0A] @ ''```'')"
    by simp
  from T [where marker = "''```sql''"
      and rest = "''SELECT 1'' @ [CHR 0x0A] @ ''```''"
      and s = ?two and response = ?two and body = "''SELECT 1''" and db = busyDb
      and tables = ?schema and model = proseModel and question = "''Count all products''"
      and msg = "''syntax error at end of input''"]
  have a4: "dropOptionalNewline ([CHR 0x0A] @ ''SELECT 1'' @ [CHR 0x0A] @ ''```'')
              = ''SELECT 1'' @ [CHR 0x0A] @ ''```''"
    by simp
  from T [where marker = "''```sql''"
      and rest = "''SELECT 1''"
      and s = ?two and response = ?two and body = "''SELECT 1''" and db = busyDb
      and tables = ?schema and model = proseModel and question = "''Count all products''"
      and msg = "''syntax error at end of input''"]
  have a5: "removeTrailingFence (''SELECT 1'' @ [CHR 0x0A] @ ''```'') = ''SELECT 1''"
    by simp
  have two: "stripFences ?two = ''SELECT 1''"
    by (metis a0 a1 a2 a3 a4 a5)
  \<comment> \<open>a comment line before the statement\<close>
  have km: "keptLines ?mixed = [''  SELECT 1'']" by code_simp
  have om: "js_join [CHR 0x0A] (outerTrimmed [''  SELECT 1'']) = ''SELECT 1''" by code_simp
  from T [where marker = "''```sql''" and rest = "[]"
      and s = ?mixed and response = ?mixed and body = "''SELECT 1''" and db = busyDb
      and tables = ?schema and model = proseModel and question = "''Count all products''"
      and msg = "''syntax error at end of input''"]
  have "cleanSqlResponse ?mixed = js_join [CHR 0x0A] (outerTrimmed (keptLines ?mixed))"
    by blast
  with km om have mixed: "cleanSqlResponse ?mixed = ''SELECT 1''"
    by (simp only:)
  \<comment> \<open>a statement between fences\<close>
  have t: "js_trim ''SELECT 1;'' = ''SELECT 1;''" by code_simp
  have p: "\<not> prefix ''```'' ''SELECT 1;''" by simp
  have sp: "js_split_lines ''SELECT 1;'' = [''SELECT 1;'']" by code_simp
  have k: "keepLine ''SELECT 1;''" by code_simp
  from sp k have ls: "\<forall>line \<in> set (js_split_lines ''SELECT 1;''). keepLine line" by simp
  from t p ls T [where marker = "''```sql''" and rest = "[]"
      and s = ?mixed and response = ?mixed and body = "''SELECT 1;''" and db = busyDb
      and tables = ?schema and model = proseModel and question = "''Count all products''"
      and msg = "''syntax error at end of input''"]
  have f: "cleanSqlResponse (''```sql'' @ [CHR 0x0A] @ ''SELECT 1;'' @ [CHR 0x0A] @ ''```'')
             = ''SELECT 1;''"
    by blast
  \<comment> \<open>prose and comment only\<close>
  have kp: "keptLines ?prose = []" by code_simp
  have g: "getTableSchema busyDb = Inr ?schema"
    unfolding busyDb_def by code_simp
  have md: "proseModel (buildPrompt ''Count all products'' ?schema) = Inr ?prose"
    by (simp add: proseModel_def)
  have q: "query busyDb ''EXPLAIN '' = Some ''syntax error at end of input''"
    by (simp add: busyDb_def)
  have cn: "connect busyDb 1 = None"
    by (simp add: busyDb_def)
  from kp g md q cn
    T [where marker = "''```sql''" and rest = "[]"
      and s = ?prose and response = ?prose and body = "''SELECT 1;''" and db = busyDb
      and tables = ?schema and model = proseModel and question = "''Count all products''"
      and msg = "''syntax error at end of input''"]
  have e: "cleanSqlResponse ?prose = []"
    and r: "generateSqlFromQuestion_AI busyDb proseModel ''Count all products'' =
        Inl (ValidationFailed ''syntax error at end of input'')"
    by blast+
  from two mixed f e r show ?thesis by blast
qed

text \<open>
  The claim as stated fails on a response of prose and comment only: the cleaned text
  is empty, the orchestrator sends \<open>EXPLAIN\<close> with nothing after it, and the failure
  is the validator's, not \<open>MalformedResponse\<close>.
\<close>

theorem empty_candidate_counterexample:
  "cleanSqlResponse (''Here is the query:'' @ [CHR 0x0A] @ ''-- it counts the rows'') = []
   \<and> generateSqlFromQuestion_AI busyDb proseModel ''Count all products'' =
        Inl (ValidationFailed ''syntax error at end of input'')
   \<and> generateSqlFromQuestion_AI busyDb proseModel ''Count all products'' \<noteq> Inl MalformedResponse"
proof -
  have a: "cleanSqlResponse (''Here is the query:'' @ [CHR 0x0A] @ ''-- it counts the rows'') = []"
    by code_simp
  have b: "generateSqlFromQuestion_AI busyDb proseModel ''Count all products'' =
        Inl (ValidationFailed ''syntax error at end of input'')"
    unfolding busyDb_def proseModel_def by code_simp
  from a b show ?thesis by simp
qed

section \<open>The schema inspector\<close>

lemma map_of_setProperty: "map_of (setProperty k v al) = (map_of al)(k \<mapsto> v)"
  by (induction al) (auto simp: fun_eq_iff)

lemma keys_setProperty:
  "map fst (setProperty k v al) = (if k \<in> fst ` set al then map fst al else map fst al @ [k])"
  by (induction al) auto

lemma key_in_setProperty: "k \<in> fst ` set (setProperty k v al)"
  by (induction al) auto

lemma set_setProperty_subset:
  "distinct (map fst al) \<Longrightarrow> p \<in> set (setProperty k v al)
   \<Longrightarrow> p = (k, v) \<or> (p \<in> set al \<and> fst p \<noteq> k)"
  by (induction al) (force split: if_splits)+

lemma addRow_grouped:
  assumes "grouped seen tables" and "table_name r \<notin> set objectPrototypeKeys"
  shows "\<exists>tables'. addRow tables r = Inr tables' \<and> grouped (seen @ [r]) tables'"
proof (cases "map_of tables (table_name r)")
  case None
  let ?k = "table_name r"
  let ?new = "\<lparr>name = ?k, columns = []\<rparr>"
  let ?t1 = "setProperty ?k ?new tables"
  let ?t2 = "setProperty ?k (?new\<lparr>columns := columns ?new @ [columnOf r]\<rparr>) ?t1"
  from None assms(2) have g0: "getProperty tables ?k = Undefined"
    by (simp add: getProperty_def)
  have g1: "getProperty ?t1 ?k = Own ?new"
    by (simp add: getProperty_def map_of_setProperty)
  from g0 g1 have res: "addRow tables r = Inr ?t2"
    by (simp add: addRow_def Let_def)
  from None have fresh: "?k \<notin> fst ` set tables"
    by (simp add: map_of_eq_None_iff)
  with assms(1) have nodone: "?k \<notin> table_name ` set seen"
    by (simp add: grouped_def)
  have keys1: "map fst ?t1 = map fst tables @ [?k]"
    using fresh by (simp add: keys_setProperty)
  have d1: "distinct (map fst ?t1)"
    using assms(1) fresh by (simp add: keys1 grouped_def)
  have "map fst ?t2 = (if ?k \<in> fst ` set ?t1 then map fst ?t1 else map fst ?t1 @ [?k])"
    by (rule keys_setProperty)
  also have "\<dots> = map fst ?t1"
    using key_in_setProperty [of ?k ?new tables] by simp
  finally have keys: "map fst ?t2 = map fst tables @ [?k]"
    using keys1 by simp
  have d: "distinct (map fst ?t2)"
    using d1 by (simp only: keys keys1)
  have dom: "fst ` set ?t2 = table_name ` set (seen @ [r])"
  proof -
    have "fst ` set ?t2 = set (map fst ?t2)" by simp
    also have "\<dots> = insert ?k (fst ` set tables)" by (simp only: keys) auto
    finally show ?thesis using assms(1) by (auto simp: grouped_def)
  qed
  have ent: "\<forall>(k, t) \<in> set ?t2.
            TableSchema.name t = k
            \<and> columns t = map columnOf (filter (\<lambda>r. table_name r = k) (seen @ [r]))"
  proof (clarify)
    fix k t assume "(k, t) \<in> set ?t2"
    with d1 have "(k, t) = (?k, ?new\<lparr>columns := columns ?new @ [columnOf r]\<rparr>)
        \<or> ((k, t) \<in> set ?t1 \<and> k \<noteq> ?k)"
      using set_setProperty_subset [of ?t1 "(k, t)" ?k] by auto
    moreover have "(k, t) \<in> set ?t1 \<and> k \<noteq> ?k \<Longrightarrow> (k, t) \<in> set tables"
      using assms(1) set_setProperty_subset [of tables "(k, t)" ?k ?new]
      by (auto simp: grouped_def)
    ultimately consider "(k, t) = (?k, ?new\<lparr>columns := columns ?new @ [columnOf r]\<rparr>)"
      | "(k, t) \<in> set tables" "k \<noteq> ?k"
      by blast
    then show "TableSchema.name t = k
            \<and> columns t = map columnOf (filter (\<lambda>r. table_name r = k) (seen @ [r]))"
    proof cases
      case 1
      from nodone have "\<forall>x \<in> set seen. table_name x \<noteq> ?k"
        by (metis imageI)
      then have "filter (\<lambda>x. table_name x = ?k) seen = []"
        by (simp add: filter_empty_conv)
      with 1 show ?thesis by simp
    next
      case 2
      with assms(1) show ?thesis by (auto simp: grouped_def)
    qed
  qed
  from d dom ent have "grouped (seen @ [r]) ?t2"
    unfolding grouped_def by blast
  with res show ?thesis by blast
next
  case (Some t)
  let ?k = "table_name r"
  let ?t2 = "setProperty ?k (t\<lparr>columns := columns t @ [columnOf r]\<rparr>) tables"
  from Some have g0: "getProperty tables ?k = Own t"
    by (simp add: getProperty_def)
  then have res: "addRow tables r = Inr ?t2"
    by (simp add: addRow_def Let_def)
  from Some have mem: "(?k, t) \<in> set tables" by (rule map_of_SomeD)
  then have present: "?k \<in> fst ` set tables" by force
  with assms(1) have isdone: "?k \<in> table_name ` set seen"
    by (simp add: grouped_def)
  from mem assms(1) have tk: "TableSchema.name t = ?k"
    and tc: "columns t = map columnOf (filter (\<lambda>x. table_name x = ?k) seen)"
    by (auto simp: grouped_def)
  have keys: "map fst ?t2 = map fst tables"
    using present by (simp add: keys_setProperty)
  have d: "distinct (map fst ?t2)"
    using assms(1) by (simp add: keys grouped_def)
  have dom: "fst ` set ?t2 = table_name ` set (seen @ [r])"
  proof -
    have "fst ` set ?t2 = set (map fst ?t2)" by simp
    also have "\<dots> = fst ` set tables" by (simp only: keys) simp
    finally show ?thesis using assms(1) isdone by (auto simp: grouped_def)
  qed
  have ent: "\<forall>(k, u) \<in> set ?t2.
            TableSchema.name u = k
            \<and> columns u = map columnOf (filter (\<lambda>r. table_name r = k) (seen @ [r]))"
  proof (clarify)
    fix k u assume "(k, u) \<in> set ?t2"
    with assms(1) consider "(k, u) = (?k, t\<lparr>columns := columns t @ [columnOf r]\<rparr>)"
      | "(k, u) \<in> set tables" "k \<noteq> ?k"
      using set_setProperty_subset [of tables "(k, u)" ?k]
      by (auto simp: grouped_def)
    then show "TableSchema.name u = k
            \<and> columns u = map columnOf (filter (\<lambda>r. table_name r = k) (seen @ [r]))"
    proof cases
      case 1
      with tk tc show ?thesis by simp
    next
      case 2
      with assms(1) show ?thesis by (auto simp: grouped_def)
    qed
  qed
  from d dom ent have "grouped (seen @ [r]) ?t2"
    unfolding grouped_def by blast
  with res show ?thesis by blast
qed

lemma forEachRow_grouped:
  assumes "grouped seen tables" and "\<forall>r \<in> set rows. table_name r \<notin> set objectPrototypeKeys"
  shows "\<exists>tables'. forEachRow tables rows = Inr tables' \<and> grouped (seen @ rows) tables'"
  using assms
proof (induction rows arbitrary: seen tables)
  case Nil
  then show ?case by simp
next
  case (Cons r rs)
  from Cons.prems obtain t1 where a: "addRow tables r = Inr t1" and g: "grouped (seen @ [r]) t1"
    using addRow_grouped [of "seen" tables r] by auto
  from Cons.IH [OF g] Cons.prems(2)
  obtain t2 where "forEachRow t1 rs = Inr t2" and "grouped ((seen @ [r]) @ rs) t2"
    by auto
  with a show ?case by simp
qed

lemma objectValues_set: "set (objectValues obj) = snd ` set obj"
  by (auto simp: objectValues_def)

lemma objectValues_names:
  assumes "distinct (map fst obj)" and "\<forall>(k, t) \<in> set obj. f t = k"
  shows "distinct (map f (objectValues obj))"
proof -
  let ?ix = "filter (\<lambda>p. isArrayIndex (fst p)) obj"
  let ?nx = "filter (\<lambda>p. \<not> isArrayIndex (fst p)) obj"
  let ?L = "sort_key (\<lambda>p. indexValue (fst p)) ?ix @ ?nx"
  from assms(1) have dobj: "distinct obj" by (rule distinct_map [THEN iffD1, THEN conjunct1])
  from assms(1) have inj: "inj_on fst (set obj)" by (simp add: distinct_map)
  have setL: "set ?L = set obj" by auto
  have dL: "distinct ?L" using dobj by auto
  have "map f (objectValues obj) = map (f \<circ> snd) ?L"
    by (simp add: objectValues_def)
  also have "\<dots> = map fst ?L"
    using assms(2) setL by (intro map_cong) auto
  finally have eq: "map f (objectValues obj) = map fst ?L" .
  from inj setL have "inj_on fst (set ?L)"
    by (simp only:)
  with dL have "distinct (map fst ?L)"
    using distinct_map [of fst ?L] by blast
  with eq show ?thesis by simp
qed

text \<open>
  When no table of the catalog bears a name that every object inherits, the grouping
  is as intended: one entry per table name of the rows, each with its columns in the
  order of the rows.
\<close>

lemma getTableSchema_grouped:
  assumes "connect db 0 = None" and "catalog db = Inr rows"
      and "\<forall>r \<in> set rows. table_name r \<notin> set objectPrototypeKeys"
  shows "\<exists>schema. getTableSchema db = Inr schema
     \<and> distinct (map TableSchema.name schema)
     \<and> TableSchema.name ` set schema = table_name ` set rows
     \<and> (\<forall>t \<in> set schema.
           columns t = map columnOf (filter (\<lambda>r. table_name r = TableSchema.name t) rows))"
proof -
  have "grouped [] []" by (simp add: grouped_def)
  from forEachRow_grouped [OF this assms(3)]
  obtain tables where f: "forEachRow [] rows = Inr tables" and g: "grouped rows tables"
    by auto
  from f assms(1,2) have r: "getTableSchema db = Inr (objectValues tables)"
    by (simp add: getTableSchema_def)
  from g have nm: "\<forall>(k, t) \<in> set tables. TableSchema.name t = k"
    and dk: "distinct (map fst tables)"
    and dom: "fst ` set tables = table_name ` set rows"
    and cols: "\<forall>(k, t) \<in> set tables.
                 columns t = map columnOf (filter (\<lambda>r. table_name r = k) rows)"
    by (auto simp: grouped_def)
  from dk nm have 1: "distinct (map TableSchema.name (objectValues tables))"
    by (rule objectValues_names)
  have 2: "TableSchema.name ` set (objectValues tables) = table_name ` set rows"
  proof -
    have "TableSchema.name ` set (objectValues tables) = (TableSchema.name \<circ> snd) ` set tables"
      by (simp add: objectValues_set image_comp)
    also have "\<dots> = fst ` set tables"
      using nm by (intro image_cong) auto
    finally show ?thesis using dom by simp
  qed
  have 3: "\<forall>t \<in> set (objectValues tables).
           columns t = map columnOf (filter (\<lambda>r. table_name r = TableSchema.name t) rows)"
  proof
    fix t assume "t \<in> set (objectValues tables)"
    then obtain k where m: "(k, t) \<in> set tables"
      by (auto simp: objectValues_set)
    with nm have "TableSchema.name t = k" by auto
    moreover from m cols have "columns t = map columnOf (filter (\<lambda>r. table_name r = k) rows)"
      by auto
    ultimately show "columns t = map columnOf (filter (\<lambda>r. table_name r = TableSchema.name t) rows)"
      by simp
  qed
  from r 1 2 3 show ?thesis by blast
qed

text \<open>
  Claim C9, at the input where the code departs from it. A base table named
  \<open>constructor\<close> gets no entry: \<open>tables['constructor']\<close> finds the function that
  every object inherits, which is truthy, so no entry is created, and the
  \<open>push\<close> onto its missing \<open>columns\<close> throws.
\<close>

theorem schema_inherited_key:
  "getTableSchema
     \<lparr>connect = (\<lambda>n. None),
      catalog = Inr [\<lparr>table_name = ''constructor'', column_name = ''id'',
                      data_type = ''integer'', is_nullable = ''NO''\<rparr>],
      query = (\<lambda>stmt. None)\<rparr>
   = Inl (TypeError ''Cannot read properties of undefined (reading 'push')'')"
  by code_simp

end
